theory Spec2Isabelle
  imports Main "HOL-Library.AList"
begin

section \<open>Data model\<close>

text \<open>
  The development follows \<^verbatim>\<open>docs/sphinx_pyodide/sphinx_pyodide/jsdoc.py\<close>.
  Python strings are lists of bytes (UTF-8), Python dictionaries are association lists in
  insertion order (lookup with \<^const>\<open>map_of\<close>, assignment with \<^const>\<open>AList.update\<close>,
  which keeps the position of a key that is already present and appends a new key), and an
  exception is the left injection of a sum.
\<close>

text \<open>
  \<open>IndexError\<close> and \<open>KeyError\<close> are the two exceptions this module can raise by
  itself (an index into an empty sequence, a missing dictionary key); \<open>LookupError\<close>
  stands for a failure inside sphinx-js.
\<close>

datatype py_error = IndexError | KeyError | LookupError

text \<open>A doclet is the JSON dictionary that JsDoc emitted; the fields read here are strings.\<close>

type_synonym doclet = "(string \<times> string) list"

text \<open>
  The object of the sphinx-js intermediate representation. \<open>is_function\<close> stands for
  \<^verbatim>\<open>isinstance(obj, Function)\<close>; \<open>kind\<close> is the attribute that
  \<^verbatim>\<open>get_object_from_json\<close> writes onto the object.
\<close>

record ir_object =
  name :: string
  description :: string
  is_function :: bool
  kind :: string

text \<open>
  The wrapped sphinx-js analyzer (\<^verbatim>\<open>self.inner\<close>): its table of doclets per
  class path and its lookup \<^verbatim>\<open>get_object(path, kind)\<close>, which belongs to
  sphinx-js and may fail.
\<close>

record js_analyzer =
  doclets_by_class :: "(string list \<times> doclet list) list"
  get_object :: "string list \<Rightarrow> string \<Rightarrow> py_error + ir_object"

type_synonym sub_buckets = "(string \<times> ir_object list) list"
type_synonym js_docs = "(string \<times> sub_buckets) list"
type_synonym items = "(string \<times> doclet list) list"

section \<open>PyodideAnalyzer\<close>

text \<open>
  \<^verbatim>\<open>longname_to_path\<close>: the parser \<open>parse\<close> is the sphinx-js grammar
  (\<^verbatim>\<open>PathVisitor().visit(path_and_formal_params["path"].parse(name))\<close>),
  a parameter here.
\<close>

definition longname_to_path ::
  "(string \<Rightarrow> py_error + string list) \<Rightarrow> string \<Rightarrow> py_error + string list" where
  "longname_to_path parse nm = parse nm"

definition get_object_from_json ::
  "(string \<Rightarrow> py_error + string list) \<Rightarrow> js_analyzer \<Rightarrow> doclet \<Rightarrow> py_error + ir_object" where
  "get_object_from_json parse inner json =
     (case map_of json ''longname'' of
        None \<Rightarrow> Inl KeyError
      | Some ln \<Rightarrow>
          (case longname_to_path parse ln of
             Inl e \<Rightarrow> Inl e
           | Inr path \<Rightarrow>
               (case map_of json ''kind'' of
                  None \<Rightarrow> Inl KeyError
                | Some k \<Rightarrow>
                    (let knd = (if k = ''function'' then ''function'' else ''attribute'')
                     in (case get_object inner path knd of
                           Inl e \<Rightarrow> Inl e
                         | Inr obj \<Rightarrow> Inr (obj\<lparr>kind := knd\<rparr>))))))"

text \<open>\<^verbatim>\<open>get_val\<close> and the initial \<^verbatim>\<open>self.js_docs\<close>.\<close>

definition get_val :: sub_buckets where
  "get_val = [(''attribute'', []), (''function'', [])]"

definition bucket_keys :: "string list" where
  "bucket_keys = [''globals'', ''pyodide'', ''PyProxy'']"

definition init_js_docs :: js_docs where
  "init_js_docs = map (\<lambda>key. (key, get_val)) bucket_keys"

text \<open>The list comprehension \<^verbatim>\<open>[x for x in key if "/" not in x]\<close>.\<close>

definition strip_key :: "string list \<Rightarrow> string list" where
  "strip_key key = filter (\<lambda>x. CHR ''/'' \<notin> set x) key"

text \<open>
  The three conditions of the first loop, on the stripped key. They are evaluated after
  \<^verbatim>\<open>key[-1]\<close> has succeeded, that is on a non-empty list.
\<close>

definition sel_globals :: "string list \<Rightarrow> bool" where
  "sel_globals key = (last key = ''globalThis'')"

definition sel_pyodide :: "string list \<Rightarrow> bool" where
  "sel_pyodide key = (hd key = ''pyodide.'' \<and> last key = ''Module'')"

definition sel_pyproxy :: "string list \<Rightarrow> bool" where
  "sel_pyproxy key = (hd key = ''pyproxy.'')"

text \<open>
  One iteration of the first loop. \<^verbatim>\<open>key[-1]\<close> raises \<open>IndexError\<close> on an
  empty list; \<^verbatim>\<open>items["PyProxy"] += group\<close> reads the entry, extends it and
  stores it back.
\<close>

definition select_group :: "items \<Rightarrow> string list \<times> doclet list \<Rightarrow> py_error + items" where
  "select_group its kg =
     (let key = strip_key (fst kg); grp = snd kg in
      if key = [] then Inl IndexError
      else
        (let its1 = (if sel_globals key then AList.update ''globals'' grp its else its);
             its2 = (if sel_pyodide key then AList.update ''pyodide'' grp its1 else its1)
         in if sel_pyproxy key
            then (case map_of its2 ''PyProxy'' of
                    None \<Rightarrow> Inl KeyError
                  | Some old \<Rightarrow> Inr (AList.update ''PyProxy'' (old @ grp) its2))
            else Inr its2))"

fun select_items :: "items \<Rightarrow> (string list \<times> doclet list) list \<Rightarrow> py_error + items" where
  "select_items its [] = Inr its"
| "select_items its (kg # rest) =
     (case select_group its kg of
        Inl e \<Rightarrow> Inl e
      | Inr its' \<Rightarrow> select_items its' rest)"

text \<open>The test \<^verbatim>\<open>json.get("access", None) == "private"\<close>.\<close>

definition is_private :: "doclet \<Rightarrow> bool" where
  "is_private json = (map_of json ''access'' = Some ''private'')"

text \<open>
  Lines 79-80: \<^verbatim>\<open>obj.name[0]\<close> raises on the empty name; a name that starts and
  ends with the double quote (byte 0x22) becomes \<^verbatim>\<open>"[" + obj.name[1:-1] + "]"\<close>.
\<close>

definition dquote :: char where
  "dquote = CHR 0x22"

definition bracket_name :: "string \<Rightarrow> py_error + string" where
  "bracket_name nm =
     (if nm = [] then Inl IndexError
      else if hd nm = dquote \<and> last nm = dquote
           then Inr (''['' @ butlast (tl nm) @ '']'')
           else Inr nm)"

text \<open>\<^verbatim>\<open>self.js_docs[key][obj.kind].append(obj)\<close>.\<close>

definition append_obj :: "js_docs \<Rightarrow> string \<Rightarrow> ir_object \<Rightarrow> py_error + js_docs" where
  "append_obj docs key obj =
     (case map_of docs key of
        None \<Rightarrow> Inl KeyError
      | Some bucket \<Rightarrow>
          (case map_of bucket (kind obj) of
             None \<Rightarrow> Inl KeyError
           | Some objs \<Rightarrow>
               Inr (AList.update key (AList.update (kind obj) (objs @ [obj]) bucket) docs)))"

text \<open>
  Lines 78-80 of the inner loop of the second phase: the object looked up for a doclet,
  with its display name.
\<close>

definition make_object ::
  "(string \<Rightarrow> py_error + string list) \<Rightarrow> js_analyzer \<Rightarrow> doclet \<Rightarrow> py_error + ir_object" where
  "make_object parse inner json =
     (case get_object_from_json parse inner json of
        Inl e \<Rightarrow> Inl e
      | Inr obj \<Rightarrow>
          (case bracket_name (name obj) of
             Inl e \<Rightarrow> Inl e
           | Inr nm \<Rightarrow> Inr (obj\<lparr>name := nm\<rparr>)))"

text \<open>The body of the inner loop, lines 76-81, for one doclet.\<close>

definition add_doclet ::
  "(string \<Rightarrow> py_error + string list) \<Rightarrow> js_analyzer \<Rightarrow> string \<Rightarrow> js_docs \<Rightarrow> doclet
     \<Rightarrow> py_error + js_docs" where
  "add_doclet parse inner key docs json =
     (if is_private json then Inr docs
      else (case make_object parse inner json of
              Inl e \<Rightarrow> Inl e
            | Inr obj \<Rightarrow> append_obj docs key obj))"

fun add_doclets ::
  "(string \<Rightarrow> py_error + string list) \<Rightarrow> js_analyzer \<Rightarrow> string \<Rightarrow> js_docs \<Rightarrow> doclet list
     \<Rightarrow> py_error + js_docs" where
  "add_doclets parse inner key docs [] = Inr docs"
| "add_doclets parse inner key docs (json # rest) =
     (case add_doclet parse inner key docs json of
        Inl e \<Rightarrow> Inl e
      | Inr docs' \<Rightarrow> add_doclets parse inner key docs' rest)"

fun fill_js_docs ::
  "(string \<Rightarrow> py_error + string list) \<Rightarrow> js_analyzer \<Rightarrow> js_docs \<Rightarrow> items
     \<Rightarrow> py_error + js_docs" where
  "fill_js_docs parse inner docs [] = Inr docs"
| "fill_js_docs parse inner docs (kv # rest) =
     (case add_doclets parse inner (fst kv) docs (snd kv) of
        Inl e \<Rightarrow> Inl e
      | Inr docs' \<Rightarrow> fill_js_docs parse inner docs' rest)"

text \<open>\<^verbatim>\<open>create_js_doclets\<close>: the value is the final \<^verbatim>\<open>self.js_docs\<close>.\<close>

definition create_js_doclets ::
  "(string \<Rightarrow> py_error + string list) \<Rightarrow> js_analyzer \<Rightarrow> py_error + js_docs" where
  "create_js_doclets parse inner =
     (case select_items [(''PyProxy'', [])] (doclets_by_class inner) of
        Inl e \<Rightarrow> Inl e
      | Inr its \<Rightarrow> fill_js_docs parse inner init_js_docs its)"

section \<open>Strings\<close>

text \<open>\<^verbatim>\<open>sep.join(parts)\<close>.\<close>

fun join :: "string \<Rightarrow> string list \<Rightarrow> string" where
  "join sep [] = []"
| "join sep [x] = x"
| "join sep (x # y # ys) = x @ sep @ join sep (y # ys)"

text \<open>
  \<^verbatim>\<open>s.replace(old, new)\<close>: the occurrences of \<open>old\<close> are found from left to
  right and do not overlap; the empty \<open>old\<close> matches before every character and at the
  end.
\<close>

function str_replace :: "string \<Rightarrow> string \<Rightarrow> string \<Rightarrow> string" where
  "str_replace old new s =
     (if old = [] then new @ concat (map (\<lambda>c. c # new) s)
      else if s = [] then []
      else if take (length old) s = old
           then new @ str_replace old new (drop (length old) s)
           else hd s # str_replace old new (tl s))"
  by pat_completeness auto
termination
  by (relation "measure (\<lambda>(old, new, s). length s)") auto

declare str_replace.simps [simp del]

text \<open>
  \<^verbatim>\<open>s.title()\<close> on ASCII text: a letter that follows a letter is lowered, any other
  letter is raised. It is applied to the keys of a bucket only.
\<close>

definition is_lower :: "char \<Rightarrow> bool" where
  "is_lower c = (97 \<le> (of_char c :: nat) \<and> (of_char c :: nat) \<le> 122)"

definition is_upper :: "char \<Rightarrow> bool" where
  "is_upper c = (65 \<le> (of_char c :: nat) \<and> (of_char c :: nat) \<le> 90)"

definition to_upper :: "char \<Rightarrow> char" where
  "to_upper c = (if is_lower c then char_of ((of_char c :: nat) - 32) else c)"

definition to_lower :: "char \<Rightarrow> char" where
  "to_lower c = (if is_upper c then char_of ((of_char c :: nat) + 32) else c)"

fun title_from :: "bool \<Rightarrow> string \<Rightarrow> string" where
  "title_from prev [] = []"
| "title_from prev (c # cs) =
     (if is_lower c \<or> is_upper c
      then (if prev then to_lower c else to_upper c) # title_from True cs
      else c # title_from False cs)"

definition title :: "string \<Rightarrow> string" where
  "title s = title_from False s"

section \<open>JsDocContent\<close>

text \<open>
  The two sphinx-js renderers, \<^verbatim>\<open>AutoFunctionRenderer(...).rst\<close> and
  \<^verbatim>\<open>AutoAttributeRenderer(...).rst\<close>, applied to \<^verbatim>\<open>[obj.name]\<close> and the
  object, are parameters.
\<close>

record renderers =
  function_rst :: "string list \<Rightarrow> ir_object \<Rightarrow> string"
  attribute_rst :: "string list \<Rightarrow> ir_object \<Rightarrow> string"

definition get_rst :: "renderers \<Rightarrow> ir_object \<Rightarrow> string" where
  "get_rst R obj =
     (if is_function obj then function_rst R [name obj] obj
      else attribute_rst R [name obj] obj)"

definition get_rst_for_group :: "renderers \<Rightarrow> ir_object list \<Rightarrow> string list" where
  "get_rst_for_group R objects = map (get_rst R) objects"

text \<open>
  The list \<^verbatim>\<open>rst\<close> that \<^verbatim>\<open>JsDocContent.run\<close> builds: the module line, then
  one list of blocks per sub-bucket, in the order of the sub-bucket mapping.
\<close>

definition content_rst ::
  "renderers \<Rightarrow> js_docs \<Rightarrow> string list \<Rightarrow> py_error + string list list" where
  "content_rst R docs arguments =
     (case arguments of
        [] \<Rightarrow> Inl IndexError
      | module # _ \<Rightarrow>
          (case map_of docs module of
             None \<Rightarrow> Inl KeyError
           | Some vals \<Rightarrow>
               Inr ([''.. js:module:: '' @ module]
                    # map (\<lambda>kv. get_rst_for_group R (snd kv)) vals)))"

definition nl2 :: string where
  "nl2 = [CHR 0x0A, CHR 0x0A]"

text \<open>\<^verbatim>\<open>JsDocContent.run\<close>; \<open>parse_rst\<close> is the docutils parser.\<close>

definition run_content ::
  "renderers \<Rightarrow> (string \<Rightarrow> 'n) \<Rightarrow> js_docs \<Rightarrow> string list \<Rightarrow> py_error + 'n" where
  "run_content R parse_rst docs arguments =
     (case content_rst R docs arguments of
        Inl e \<Rightarrow> Inl e
      | Inr rst \<Rightarrow> Inr (parse_rst (join nl2 (map (join nl2) rst))))"

section \<open>JsDocSummary\<close>

text \<open>
  The docutils nodes the directive returns: the heading paragraph with its strong text,
  the column specification, and the table with its rows; a row holds the source text of
  each of its cells.
\<close>

datatype node =
    Heading string
  | Tabular_col_spec string
  | Autosummary_table "string list list"

text \<open>
  What the directive takes from outside: the summary extraction of autosummary (with the
  document fixed), the formal parameters as sphinx-js prints them,
  \<^verbatim>\<open>sphinx.util.rst.escape\<close>, and the directive's options.
\<close>

record summary_env =
  lib_extract_summary :: "string list \<Rightarrow> string"
  formal_params :: "ir_object \<Rightarrow> string"
  rst_escape :: "string \<Rightarrow> string"
  options :: "string list"

definition backslash :: char where
  "backslash = CHR 0x5C"

text \<open>The Python literal \<^verbatim>\<open>"esccolon\\\xafhoa:"\<close>; U+00AF is the bytes C2 AF.\<close>

definition colon_esc :: string where
  "colon_esc = ''esccolon'' @ [backslash, CHR 0xC2, CHR 0xAF] @ ''hoa:''"

definition extract_summary :: "summary_env \<Rightarrow> string \<Rightarrow> string" where
  "extract_summary E descr =
     str_replace colon_esc '':'' (lib_extract_summary E [str_replace '':'' colon_esc descr])"

definition get_sig :: "summary_env \<Rightarrow> ir_object \<Rightarrow> string" where
  "get_sig E obj = (if is_function obj then formal_params E obj else [])"

definition get_summary_row ::
  "summary_env \<Rightarrow> string \<Rightarrow> ir_object \<Rightarrow> string \<times> string \<times> string \<times> string" where
  "get_summary_row E pkgname obj =
     (let sig = get_sig E obj;
          display_name = name obj;
          summary = extract_summary E (description obj);
          link_name = pkgname @ ''.'' @ display_name
      in (display_name, sig, summary, link_name))"

definition get_summary_table ::
  "summary_env \<Rightarrow> string \<Rightarrow> ir_object list \<Rightarrow> (string \<times> string \<times> string \<times> string) list" where
  "get_summary_table E pkgname grp = map (get_summary_row E pkgname) grp"

definition format_heading :: "string \<Rightarrow> node" where
  "format_heading txt = Heading txt"

text \<open>One call of \<^verbatim>\<open>append_row(col1, col2)\<close> for an item.\<close>

definition table_row :: "summary_env \<Rightarrow> string \<times> string \<times> string \<times> string \<Rightarrow> string list" where
  "table_row E item =
     (case item of (nm, sig, summary, real_name) \<Rightarrow>
        (let qualifier = ''any'';
             col1 = (if ''nosignatures'' \<notin> set (options E)
                     then '':'' @ qualifier @ '':`'' @ nm @ '' <'' @ real_name @ ''>`''
                          @ [backslash] @ '' '' @ rst_escape E sig
                     else '':'' @ qualifier @ '':`'' @ nm @ '' <'' @ real_name @ ''>`'');
             col2 = summary
         in [col1, col2]))"

definition table_spec :: string where
  "table_spec = [backslash] @ ''X{1}{2}'' @ [backslash] @ ''X{1}{2}''"

definition format_table ::
  "summary_env \<Rightarrow> (string \<times> string \<times> string \<times> string) list \<Rightarrow> node list" where
  "format_table E its = [Tabular_col_spec table_spec, Autosummary_table (map (table_row E) its)]"

text \<open>The loop of \<^verbatim>\<open>JsDocSummary.run\<close> over \<^verbatim>\<open>value.items()\<close>.\<close>

fun summary_loop :: "summary_env \<Rightarrow> string \<Rightarrow> node list \<Rightarrow> sub_buckets \<Rightarrow> node list" where
  "summary_loop E module result [] = result"
| "summary_loop E module result (kv # rest) =
     (if snd kv = [] then summary_loop E module result rest
      else summary_loop E module
             (result @ [format_heading (title (fst kv) @ ''s:'')]
                     @ format_table E (get_summary_table E module (snd kv)))
             rest)"

definition run_summary :: "summary_env \<Rightarrow> js_docs \<Rightarrow> string list \<Rightarrow> py_error + node list" where
  "run_summary E docs arguments =
     (case arguments of
        [] \<Rightarrow> Inl IndexError
      | module # _ \<Rightarrow>
          (case map_of docs module of
             None \<Rightarrow> Inl KeyError
           | Some val \<Rightarrow> Inr (summary_loop E module [] val)))"

section \<open>Vocabulary of the specification\<close>

text \<open>
  The doclets supplied for a bucket, in the order of iteration over the analyzer's table:
  for \<open>PyProxy\<close> all the groups whose stripped key starts with \<open>pyproxy.\<close>, one
  after the other; for \<open>globals\<close> and \<open>pyodide\<close> the last group that meets the
  bucket's condition.
\<close>

definition last_group ::
  "(string list \<Rightarrow> bool) \<Rightarrow> (string list \<times> doclet list) list \<Rightarrow> doclet list option" where
  "last_group sel dbc =
     (if filter (\<lambda>kg. sel (strip_key (fst kg))) dbc = [] then None
      else Some (snd (last (filter (\<lambda>kg. sel (strip_key (fst kg))) dbc))))"

definition all_groups ::
  "(string list \<Rightarrow> bool) \<Rightarrow> (string list \<times> doclet list) list \<Rightarrow> doclet list" where
  "all_groups sel dbc = concat (map snd (filter (\<lambda>kg. sel (strip_key (fst kg))) dbc))"

definition supplied :: "(string list \<times> doclet list) list \<Rightarrow> string \<Rightarrow> doclet list" where
  "supplied dbc b =
     (if b = ''PyProxy'' then all_groups sel_pyproxy dbc
      else if b = ''globals'' then (case last_group sel_globals dbc of None \<Rightarrow> [] | Some g \<Rightarrow> g)
      else if b = ''pyodide'' then (case last_group sel_pyodide dbc of None \<Rightarrow> [] | Some g \<Rightarrow> g)
      else [])"

text \<open>The three buckets with their two sub-buckets, as a function of their contents.\<close>

definition docs_of :: "(string \<Rightarrow> string \<Rightarrow> ir_object list) \<Rightarrow> js_docs" where
  "docs_of f =
     map (\<lambda>b. (b, map (\<lambda>k. (k, f b k)) [''attribute'', ''function''])) bucket_keys"

text \<open>The analyzer's table without its private doclets, and without its unmatched groups.\<close>

definition without_private :: "js_analyzer \<Rightarrow> js_analyzer" where
  "without_private inner =
     inner\<lparr>doclets_by_class :=
       map (\<lambda>kg. (fst kg, filter (\<lambda>j. \<not> is_private j) (snd kg))) (doclets_by_class inner)\<rparr>"

definition matched :: "string list \<times> doclet list \<Rightarrow> bool" where
  "matched kg =
     (sel_globals (strip_key (fst kg)) \<or> sel_pyodide (strip_key (fst kg))
      \<or> sel_pyproxy (strip_key (fst kg)))"

definition without_unmatched :: "js_analyzer \<Rightarrow> js_analyzer" where
  "without_unmatched inner =
     inner\<lparr>doclets_by_class := filter matched (doclets_by_class inner)\<rparr>"

text \<open>\<open>contains t s\<close>: the text \<open>t\<close> occurs in \<open>s\<close> (Python's \<^verbatim>\<open>t in s\<close>).\<close>

fun contains :: "string \<Rightarrow> string \<Rightarrow> bool" where
  "contains t [] = (t = [])"
| "contains t (c # cs) = (take (length t) (c # cs) = t \<or> contains t cs)"

text \<open>
  \<open>bucket_holds parse inner docs b src\<close>: bucket \<open>b\<close> of \<open>docs\<close> has its two
  sub-buckets in the order attribute, function, and they hold, in the order of \<open>src\<close>,
  the objects made from the doclets of \<open>src\<close> that are not private: those whose
  \<^verbatim>\<open>kind\<close> is not \<^verbatim>\<open>function\<close> in the first, the others in the second.
\<close>

definition bucket_holds ::
  "(string \<Rightarrow> py_error + string list) \<Rightarrow> js_analyzer \<Rightarrow> js_docs \<Rightarrow> string \<Rightarrow> doclet list
     \<Rightarrow> bool" where
  "bucket_holds parse inner docs b src =
     (\<exists>as fs. map_of docs b = Some [(''attribute'', as), (''function'', fs)]
        \<and> list_all2 (\<lambda>j obj. make_object parse inner j = Inr obj)
             (filter (\<lambda>j. \<not> is_private j \<and> map_of j ''kind'' \<noteq> Some ''function'') src) as
        \<and> list_all2 (\<lambda>j obj. make_object parse inner j = Inr obj)
             (filter (\<lambda>j. \<not> is_private j \<and> map_of j ''kind'' = Some ''function'') src) fs)"

text \<open>
  The display name as the specification words it: a name that starts and ends with a
  double quote is shown as its inner text in square brackets, any other name as it is.
\<close>

definition display_name :: "string \<Rightarrow> string" where
  "display_name nm =
     (if nm \<noteq> [] \<and> hd nm = dquote \<and> last nm = dquote
      then ''['' @ butlast (tl nm) @ '']'' else nm)"

section \<open>A sample analyzer\<close>

text \<open>
  A small stand-in for sphinx-js, used to run the definitions on concrete tables: the path
  of a long name is the long name itself, and the object found at a path carries the last
  component as its name.
\<close>

definition demo_parse :: "string \<Rightarrow> py_error + string list" where
  "demo_parse s = (if s = [] then Inl LookupError else Inr [s])"

definition demo_lookup :: "string list \<Rightarrow> string \<Rightarrow> py_error + ir_object" where
  "demo_lookup path knd =
     (case path of
        [] \<Rightarrow> Inl LookupError
      | _ \<Rightarrow> Inr \<lparr>name = last path, description = ''See: '' @ last path,
                 is_function = (knd = ''function''), kind = []\<rparr>)"

definition demo_analyzer :: "(string list \<times> doclet list) list \<Rightarrow> js_analyzer" where
  "demo_analyzer dbc = \<lparr>doclets_by_class = dbc, get_object = demo_lookup\<rparr>"

definition demo_renderers :: renderers where
  "demo_renderers =
     \<lparr>function_rst = (\<lambda>path obj. ''.. js:function:: '' @ name obj),
      attribute_rst = (\<lambda>path obj. ''.. js:attribute:: '' @ name obj)\<rparr>"

text \<open>A stand-in for the library's extraction that returns its single line as it is.\<close>

definition echo_summary :: "string list \<Rightarrow> string" where
  "echo_summary doc = concat doc"

definition demo_env :: summary_env where
  "demo_env =
     \<lparr>lib_extract_summary = echo_summary, formal_params = (\<lambda>obj. ''()''),
      rst_escape = (\<lambda>s. s), options = []\<rparr>"

text \<open>Sample doclets.\<close>

definition doclet_foo :: doclet where
  "doclet_foo = [(''longname'', ''foo''), (''kind'', ''function'')]"

definition doclet_bar :: doclet where
  "doclet_bar = [(''longname'', [dquote, CHR ''b'', CHR ''a'', CHR ''r'', dquote]), (''kind'', ''member'')]"

definition doclet_hidden :: doclet where
  "doclet_hidden = [(''longname'', ''hid''), (''kind'', ''function''), (''access'', ''private'')]"

definition doclet_baz :: doclet where
  "doclet_baz = [(''longname'', ''baz''), (''kind'', ''function'')]"

definition sample_table :: "(string list \<times> doclet list) list" where
  "sample_table =
     [([''./'', ''pyodide.'', ''globalThis''], [doclet_foo, doclet_hidden]),
      ([''./'', ''pyodide.'', ''Module''], [doclet_bar]),
      ([''./'', ''pyproxy.'', ''PyProxyClass''], [doclet_baz]),
      ([''./'', ''other.'', ''Thing''], [doclet_foo])]"

definition obj_foo :: ir_object where
  "obj_foo = \<lparr>name = ''foo'', description = ''See: foo'', is_function = True,
               kind = ''function''\<rparr>"

definition obj_bar :: ir_object where
  "obj_bar = \<lparr>name = ''[bar]'',
               description = ''See: '' @ [dquote, CHR ''b'', CHR ''a'', CHR ''r'', dquote],
               is_function = False, kind = ''attribute''\<rparr>"

definition obj_baz :: ir_object where
  "obj_baz = \<lparr>name = ''baz'', description = ''See: baz'', is_function = True,
               kind = ''function''\<rparr>"

definition sample_docs :: js_docs where
  "sample_docs =
     [(''globals'', [(''attribute'', []), (''function'', [obj_foo])]),
      (''pyodide'', [(''attribute'', [obj_bar]), (''function'', [])]),
      (''PyProxy'', [(''attribute'', []), (''function'', [obj_baz])])]"

text \<open>
  A table whose \<open>PyProxy\<close> bucket is fed by two groups, with attributes and functions
  interleaved and a private doclet among them.
\<close>

definition doclet_qux :: doclet where
  "doclet_qux = [(''longname'', ''qux''), (''kind'', ''member'')]"

definition doclet_len :: doclet where
  "doclet_len = [(''longname'', ''len''), (''kind'', ''constant'')]"

definition obj_qux :: ir_object where
  "obj_qux = \<lparr>name = ''qux'', description = ''See: qux'', is_function = False,
               kind = ''attribute''\<rparr>"

definition obj_len :: ir_object where
  "obj_len = \<lparr>name = ''len'', description = ''See: len'', is_function = False,
               kind = ''attribute''\<rparr>"

definition order_table :: "(string list \<times> doclet list) list" where
  "order_table =
     [([''./'', ''pyproxy.'', ''PyProxyClass''],
       [doclet_foo, doclet_bar, doclet_hidden, doclet_baz, doclet_qux]),
      ([''./'', ''pyodide.'', ''Module''], [doclet_bar]),
      ([''./'', ''pyproxy.'', ''PyProxyBuffer''], [doclet_len])]"

definition order_docs :: js_docs where
  "order_docs =
     [(''globals'', [(''attribute'', []), (''function'', [])]),
      (''pyodide'', [(''attribute'', [obj_bar]), (''function'', [])]),
      (''PyProxy'', [(''attribute'', [obj_bar, obj_qux, obj_len]),
                     (''function'', [obj_foo, obj_baz])])]"

text \<open>
  A table with a doclet that has no long name, once in a group that a later group
  replaces and once in a group that no bucket takes.
\<close>

definition doclet_nameless :: doclet where
  "doclet_nameless = [(''kind'', ''function'')]"

definition stray_table :: "(string list \<times> doclet list) list" where
  "stray_table =
     [([''./'', ''old.'', ''globalThis''], [doclet_nameless]),
      ([''./'', ''other.'', ''Thing''], [doclet_nameless]),
      ([''./'', ''pyodide.'', ''globalThis''], [doclet_foo, doclet_hidden]),
      ([''./'', ''pyodide.'', ''Module''], [doclet_bar]),
      ([''./'', ''pyproxy.'', ''PyProxyClass''], [doclet_baz])]"

section \<open>Buckets as a function of their contents\<close>

lemma init_js_docs_docs_of: "init_js_docs = docs_of (\<lambda>b k. [])"
  by (simp add: init_js_docs_def docs_of_def get_val_def)

lemma map_of_docs_of:
  "map_of (docs_of f) b =
     (if b \<in> set bucket_keys
      then Some [(''attribute'', f b ''attribute''), (''function'', f b ''function'')]
      else None)"
  by (simp add: docs_of_def bucket_keys_def)

lemma docs_of_cong:
  "(\<And>b k. b \<in> set bucket_keys \<Longrightarrow> k \<in> {''attribute'', ''function''} \<Longrightarrow> f b k = g b k)
    \<Longrightarrow> docs_of f = docs_of g"
  by (simp add: docs_of_def bucket_keys_def)

lemma append_obj_docs_of:
  assumes "b \<in> set bucket_keys"
    and "kind obj \<in> {''attribute'', ''function''}"
  shows "append_obj (docs_of f) b obj
         = Inr (docs_of (f(b := (f b)(kind obj := f b (kind obj) @ [obj]))))"
  using assms by (auto simp add: append_obj_def docs_of_def bucket_keys_def)

lemma get_object_from_json_kind:
  "get_object_from_json parse inner json = Inr obj \<Longrightarrow>
     kind obj = (if map_of json ''kind'' = Some ''function'' then ''function'' else ''attribute'')"
  by (auto simp add: get_object_from_json_def Let_def split: option.splits sum.splits if_splits)

lemma bracket_name_cases:
  "bracket_name nm = Inr nm' \<Longrightarrow>
     nm \<noteq> [] \<and> nm' = (if hd nm = dquote \<and> last nm = dquote then ''['' @ butlast (tl nm) @ '']'' else nm)"
  by (auto simp add: bracket_name_def split: if_splits)

lemma make_object_kind:
  "make_object parse inner json = Inr obj \<Longrightarrow>
     kind obj = (if map_of json ''kind'' = Some ''function'' then ''function'' else ''attribute'')"
  by (auto simp add: make_object_def split: sum.splits dest: get_object_from_json_kind)

lemma add_doclet_docs_of:
  assumes "b \<in> set bucket_keys"
    and "add_doclet parse inner b (docs_of f) json = Inr docs'"
  shows "(is_private json \<and> docs' = docs_of f) \<or>
         (\<not> is_private json \<and> (\<exists>obj. make_object parse inner json = Inr obj \<and>
            docs' = docs_of (f(b := (f b)(kind obj := f b (kind obj) @ [obj])))))"
proof (cases "is_private json")
  case True
  with assms show ?thesis by (simp add: add_doclet_def)
next
  case False
  with assms obtain obj where mk: "make_object parse inner json = Inr obj"
    and app: "append_obj (docs_of f) b obj = Inr docs'"
    by (auto simp add: add_doclet_def split: sum.splits)
  from mk have "kind obj \<in> {''attribute'', ''function''}"
    by (auto dest: make_object_kind split: if_splits)
  with app assms(1) have "docs' = docs_of (f(b := (f b)(kind obj := f b (kind obj) @ [obj])))"
    by (simp add: append_obj_docs_of)
  with mk False show ?thesis by blast
qed

section \<open>The second loop\<close>

lemma add_doclets_docs_of:
  assumes "b \<in> set bucket_keys"
    and "add_doclets parse inner b (docs_of f) js = Inr docs'"
  shows "\<exists>A F. docs' = docs_of (f(b := (f b)(''attribute'' := f b ''attribute'' @ A,
                                              ''function'' := f b ''function'' @ F)))
           \<and> list_all2 (\<lambda>j obj. make_object parse inner j = Inr obj)
                (filter (\<lambda>j. \<not> is_private j \<and> map_of j ''kind'' \<noteq> Some ''function'') js) A
           \<and> list_all2 (\<lambda>j obj. make_object parse inner j = Inr obj)
                (filter (\<lambda>j. \<not> is_private j \<and> map_of j ''kind'' = Some ''function'') js) F"
  using assms(2)
proof (induction js arbitrary: f)
  case Nil
  then have "docs' = docs_of f" by simp
  then have "docs' = docs_of (f(b := (f b)(''attribute'' := f b ''attribute'' @ [],
                                              ''function'' := f b ''function'' @ [])))"
    by (simp only: append_Nil2 fun_upd_triv)
  then show ?case by (intro exI [of _ "[]"]) simp
next
  case (Cons j js)
  from Cons.prems obtain d1 where step: "add_doclet parse inner b (docs_of f) j = Inr d1"
    and rest: "add_doclets parse inner b d1 js = Inr docs'"
    by (auto split: sum.splits)
  from add_doclet_docs_of [OF assms(1) step]
  show ?case
  proof (elim disjE conjE exE)
    assume priv: "is_private j" and d1: "d1 = docs_of f"
    from Cons.IH [of f] rest d1 priv show ?thesis by simp
  next
    fix obj
    assume np: "\<not> is_private j" and mk: "make_object parse inner j = Inr obj"
      and d1: "d1 = docs_of (f(b := (f b)(kind obj := f b (kind obj) @ [obj])))"
    let ?f1 = "f(b := (f b)(kind obj := f b (kind obj) @ [obj]))"
    from Cons.IH [of ?f1] rest d1 obtain A F where
      docs': "docs' = docs_of (?f1(b := (?f1 b)(''attribute'' := ?f1 b ''attribute'' @ A,
                                              ''function'' := ?f1 b ''function'' @ F)))"
      and A: "list_all2 (\<lambda>j obj. make_object parse inner j = Inr obj)
                (filter (\<lambda>j. \<not> is_private j \<and> map_of j ''kind'' \<noteq> Some ''function'') js) A"
      and F: "list_all2 (\<lambda>j obj. make_object parse inner j = Inr obj)
                (filter (\<lambda>j. \<not> is_private j \<and> map_of j ''kind'' = Some ''function'') js) F"
      by blast
    show ?thesis
    proof (cases "map_of j ''kind'' = Some ''function''")
      case True
      with mk have k: "kind obj = ''function''" by (simp add: make_object_kind)
      have "docs' = docs_of (f(b := (f b)(''attribute'' := f b ''attribute'' @ A,
                                              ''function'' := f b ''function'' @ (obj # F))))"
        unfolding docs' by (rule docs_of_cong) (simp add: k)
      moreover from A True have "list_all2 (\<lambda>j obj. make_object parse inner j = Inr obj)
          (filter (\<lambda>j. \<not> is_private j \<and> map_of j ''kind'' \<noteq> Some ''function'') (j # js)) A"
        by simp
      moreover from F np mk True have "list_all2 (\<lambda>j obj. make_object parse inner j = Inr obj)
          (filter (\<lambda>j. \<not> is_private j \<and> map_of j ''kind'' = Some ''function'') (j # js)) (obj # F)"
        by simp
      ultimately show ?thesis by blast
    next
      case False
      with mk have k: "kind obj = ''attribute''" by (simp add: make_object_kind)
      have "docs' = docs_of (f(b := (f b)(''attribute'' := f b ''attribute'' @ (obj # A),
                                              ''function'' := f b ''function'' @ F)))"
        unfolding docs' by (rule docs_of_cong) (simp add: k)
      moreover from A np mk False have "list_all2 (\<lambda>j obj. make_object parse inner j = Inr obj)
          (filter (\<lambda>j. \<not> is_private j \<and> map_of j ''kind'' \<noteq> Some ''function'') (j # js)) (obj # A)"
        by simp
      moreover from F False have "list_all2 (\<lambda>j obj. make_object parse inner j = Inr obj)
          (filter (\<lambda>j. \<not> is_private j \<and> map_of j ''kind'' = Some ''function'') (j # js)) F"
        by simp
      ultimately show ?thesis by blast
    qed
  qed
qed

lemma fill_js_docs_docs_of:
  assumes "fill_js_docs parse inner (docs_of f) its = Inr docs'"
    and "distinct (map fst its)"
    and "fst ` set its \<subseteq> set bucket_keys"
  shows "\<exists>f'. docs' = docs_of f'
           \<and> (\<forall>b. map_of its b = None \<longrightarrow> f' b = f b)
           \<and> (\<forall>b g. map_of its b = Some g \<longrightarrow>
                (\<exists>A F. f' b ''attribute'' = f b ''attribute'' @ A
                   \<and> f' b ''function'' = f b ''function'' @ F
                   \<and> list_all2 (\<lambda>j obj. make_object parse inner j = Inr obj)
                        (filter (\<lambda>j. \<not> is_private j \<and> map_of j ''kind'' \<noteq> Some ''function'') g) A
                   \<and> list_all2 (\<lambda>j obj. make_object parse inner j = Inr obj)
                        (filter (\<lambda>j. \<not> is_private j \<and> map_of j ''kind'' = Some ''function'') g) F))"
  using assms
proof (induction its arbitrary: f)
  case Nil
  then show ?case by auto
next
  case (Cons kv its)
  obtain b g where kv: "kv = (b, g)" by (cases kv)
  from Cons.prems(3) kv have b: "b \<in> set bucket_keys" by simp
  from Cons.prems(1) kv obtain d1 where step: "add_doclets parse inner b (docs_of f) g = Inr d1"
    and rest: "fill_js_docs parse inner d1 its = Inr docs'"
    by (auto split: sum.splits)
  from add_doclets_docs_of [OF b step] obtain A F where
    d1: "d1 = docs_of (f(b := (f b)(''attribute'' := f b ''attribute'' @ A,
                                              ''function'' := f b ''function'' @ F)))"
    and A: "list_all2 (\<lambda>j obj. make_object parse inner j = Inr obj)
                (filter (\<lambda>j. \<not> is_private j \<and> map_of j ''kind'' \<noteq> Some ''function'') g) A"
    and F: "list_all2 (\<lambda>j obj. make_object parse inner j = Inr obj)
                (filter (\<lambda>j. \<not> is_private j \<and> map_of j ''kind'' = Some ''function'') g) F"
    by blast
  let ?f1 = "f(b := (f b)(''attribute'' := f b ''attribute'' @ A, ''function'' := f b ''function'' @ F))"
  from Cons.prems(2) kv have dist: "distinct (map fst its)" and notin: "b \<notin> fst ` set its" by auto
  from Cons.prems(3) have sub: "fst ` set its \<subseteq> set bucket_keys" by auto
  from Cons.IH [of ?f1] rest d1 dist sub obtain f' where
    docs': "docs' = docs_of f'"
    and keep: "\<forall>b'. map_of its b' = None \<longrightarrow> f' b' = ?f1 b'"
    and ext: "\<forall>b' g'. map_of its b' = Some g' \<longrightarrow>
                (\<exists>A F. f' b' ''attribute'' = ?f1 b' ''attribute'' @ A
                   \<and> f' b' ''function'' = ?f1 b' ''function'' @ F
                   \<and> list_all2 (\<lambda>j obj. make_object parse inner j = Inr obj)
                        (filter (\<lambda>j. \<not> is_private j \<and> map_of j ''kind'' \<noteq> Some ''function'') g') A
                   \<and> list_all2 (\<lambda>j obj. make_object parse inner j = Inr obj)
                        (filter (\<lambda>j. \<not> is_private j \<and> map_of j ''kind'' = Some ''function'') g') F)"
    by blast
  from notin have none: "map_of its b = None" by (simp add: map_of_eq_None_iff)
  have "\<forall>b'. map_of (kv # its) b' = None \<longrightarrow> f' b' = f b'"
    using keep kv by (auto split: if_splits)
  moreover have "\<forall>b' g'. map_of (kv # its) b' = Some g' \<longrightarrow>
                (\<exists>A F. f' b' ''attribute'' = f b' ''attribute'' @ A
                   \<and> f' b' ''function'' = f b' ''function'' @ F
                   \<and> list_all2 (\<lambda>j obj. make_object parse inner j = Inr obj)
                        (filter (\<lambda>j. \<not> is_private j \<and> map_of j ''kind'' \<noteq> Some ''function'') g') A
                   \<and> list_all2 (\<lambda>j obj. make_object parse inner j = Inr obj)
                        (filter (\<lambda>j. \<not> is_private j \<and> map_of j ''kind'' = Some ''function'') g') F)"
  proof (intro allI impI)
    fix b' g'
    assume look: "map_of (kv # its) b' = Some g'"
    show "\<exists>A F. f' b' ''attribute'' = f b' ''attribute'' @ A
                   \<and> f' b' ''function'' = f b' ''function'' @ F
                   \<and> list_all2 (\<lambda>j obj. make_object parse inner j = Inr obj)
                        (filter (\<lambda>j. \<not> is_private j \<and> map_of j ''kind'' \<noteq> Some ''function'') g') A
                   \<and> list_all2 (\<lambda>j obj. make_object parse inner j = Inr obj)
                        (filter (\<lambda>j. \<not> is_private j \<and> map_of j ''kind'' = Some ''function'') g') F"
    proof (cases "b' = b")
      case True
      with look kv have "g' = g" by simp
      moreover from keep none True have "f' b' = ?f1 b" by simp
      ultimately show ?thesis using A F True by simp
    next
      case False
      with look kv have "map_of its b' = Some g'" by simp
      from ext [rule_format, OF this] False show ?thesis by simp
    qed
  qed
  ultimately show ?case using docs' by blast
qed

section \<open>The first loop\<close>

lemma select_group_form:
  assumes "select_group its kg = Inr its'"
  shows "strip_key (fst kg) \<noteq> [] \<and>
    (\<exists>its1 its2 old. its1 = (if sel_globals (strip_key (fst kg))
                              then AList.update ''globals'' (snd kg) its else its)
       \<and> its2 = (if sel_pyodide (strip_key (fst kg))
                   then AList.update ''pyodide'' (snd kg) its1 else its1)
       \<and> (sel_pyproxy (strip_key (fst kg)) \<longrightarrow> map_of its2 ''PyProxy'' = Some old)
       \<and> its' = (if sel_pyproxy (strip_key (fst kg))
                   then AList.update ''PyProxy'' (old @ snd kg) its2 else its2))"
  using assms
  by (simp add: select_group_def Let_def split: if_splits option.splits)

lemma select_group_Inr:
  assumes "select_group its kg = Inr its'"
  shows "strip_key (fst kg) \<noteq> []"
    and "map_of its' ''globals'' =
           (if sel_globals (strip_key (fst kg)) then Some (snd kg) else map_of its ''globals'')"
    and "map_of its' ''pyodide'' =
           (if sel_pyodide (strip_key (fst kg)) then Some (snd kg) else map_of its ''pyodide'')"
    and "map_of its' ''PyProxy'' =
           (if sel_pyproxy (strip_key (fst kg))
            then map_option (\<lambda>old. old @ snd kg) (map_of its ''PyProxy'')
            else map_of its ''PyProxy'')"
    and "distinct (map fst its) \<Longrightarrow> distinct (map fst its')"
    and "fst ` set its \<subseteq> S \<Longrightarrow> ''globals'' \<in> S \<Longrightarrow> ''pyodide'' \<in> S \<Longrightarrow> ''PyProxy'' \<in> S
           \<Longrightarrow> fst ` set its' \<subseteq> S"
proof -
  from select_group_form [OF assms] obtain its1 its2 old where
    ne: "strip_key (fst kg) \<noteq> []"
    and its1: "its1 = (if sel_globals (strip_key (fst kg))
                              then AList.update ''globals'' (snd kg) its else its)"
    and its2: "its2 = (if sel_pyodide (strip_key (fst kg))
                   then AList.update ''pyodide'' (snd kg) its1 else its1)"
    and old: "sel_pyproxy (strip_key (fst kg)) \<longrightarrow> map_of its2 ''PyProxy'' = Some old"
    and its': "its' = (if sel_pyproxy (strip_key (fst kg))
                   then AList.update ''PyProxy'' (old @ snd kg) its2 else its2)"
    by blast
  from ne show "strip_key (fst kg) \<noteq> []" .
  show "map_of its' ''globals'' =
           (if sel_globals (strip_key (fst kg)) then Some (snd kg) else map_of its ''globals'')"
    by (simp add: its' its2 its1 AList.update_conv')
  show "map_of its' ''pyodide'' =
           (if sel_pyodide (strip_key (fst kg)) then Some (snd kg) else map_of its ''pyodide'')"
    by (simp add: its' its2 its1 AList.update_conv')
  have "map_of its2 ''PyProxy'' = map_of its ''PyProxy''"
    by (simp add: its2 its1 AList.update_conv')
  with old show "map_of its' ''PyProxy'' =
           (if sel_pyproxy (strip_key (fst kg))
            then map_option (\<lambda>old. old @ snd kg) (map_of its ''PyProxy'')
            else map_of its ''PyProxy'')"
    by (auto simp add: its' AList.update_conv')
  show "distinct (map fst its')" if "distinct (map fst its)"
    using that by (simp add: its' its2 its1 AList.distinct_update)
  show "fst ` set its' \<subseteq> S"
    if "fst ` set its \<subseteq> S" "''globals'' \<in> S" "''pyodide'' \<in> S" "''PyProxy'' \<in> S"
  proof -
    from that have "fst ` set its1 \<subseteq> S" by (simp add: its1 AList.dom_update)
    with that have "fst ` set its2 \<subseteq> S" by (simp add: its2 AList.dom_update)
    with that show "fst ` set its' \<subseteq> S" by (simp add: its' AList.dom_update)
  qed
qed

lemma select_group_total:
  assumes "map_of its ''PyProxy'' \<noteq> None"
  shows "select_group its kg =
           (if strip_key (fst kg) = [] then Inl IndexError
            else Inr (case select_group its kg of Inr its' \<Rightarrow> its' | Inl e \<Rightarrow> its))"
  using assms
  by (auto simp add: select_group_def Let_def AList.update_conv' split: option.splits)

lemma select_group_unmatched:
  assumes "\<not> matched kg" and "strip_key (fst kg) \<noteq> []"
  shows "select_group its kg = Inr its"
  using assms by (simp add: select_group_def matched_def Let_def)

lemma last_group_Cons:
  "last_group sel (kg # rest) =
     (case last_group sel rest of
        Some g \<Rightarrow> Some g
      | None \<Rightarrow> if sel (strip_key (fst kg)) then Some (snd kg) else None)"
  by (simp add: last_group_def)

lemma all_groups_Cons:
  "all_groups sel (kg # rest) =
     (if sel (strip_key (fst kg)) then snd kg @ all_groups sel rest else all_groups sel rest)"
  by (simp add: all_groups_def)

lemma select_items_char:
  assumes "select_items its0 dbc = Inr its"
    and "map_of its0 ''PyProxy'' = Some p0"
  shows "map_of its ''PyProxy'' = Some (p0 @ all_groups sel_pyproxy dbc)
    \<and> map_of its ''globals'' =
         (case last_group sel_globals dbc of None \<Rightarrow> map_of its0 ''globals'' | Some g \<Rightarrow> Some g)
    \<and> map_of its ''pyodide'' =
         (case last_group sel_pyodide dbc of None \<Rightarrow> map_of its0 ''pyodide'' | Some g \<Rightarrow> Some g)
    \<and> (\<forall>kg\<in>set dbc. strip_key (fst kg) \<noteq> [])"
  using assms
proof (induction dbc arbitrary: its0 p0)
  case Nil
  then show ?case by (simp add: all_groups_def last_group_def)
next
  case (Cons kg rest)
  from Cons.prems(1) obtain its1 where step: "select_group its0 kg = Inr its1"
    and more: "select_items its1 rest = Inr its"
    by (auto split: sum.splits)
  note g = select_group_Inr [OF step]
  from g(4) Cons.prems(2) obtain p1 where p1: "map_of its1 ''PyProxy'' = Some p1"
    and p1_eq: "p1 = (if sel_pyproxy (strip_key (fst kg)) then p0 @ snd kg else p0)"
    by (auto split: if_splits)
  note ih = Cons.IH [OF more p1]
  have "map_of its ''PyProxy'' = Some (p0 @ all_groups sel_pyproxy (kg # rest))"
    using ih p1_eq by (simp add: all_groups_Cons)
  moreover have "map_of its ''globals'' =
         (case last_group sel_globals (kg # rest) of
            None \<Rightarrow> map_of its0 ''globals'' | Some g \<Rightarrow> Some g)"
    using ih g(2) by (simp add: last_group_Cons split: option.splits)
  moreover have "map_of its ''pyodide'' =
         (case last_group sel_pyodide (kg # rest) of
            None \<Rightarrow> map_of its0 ''pyodide'' | Some g \<Rightarrow> Some g)"
    using ih g(3) by (simp add: last_group_Cons split: option.splits)
  moreover have "\<forall>kg'\<in>set (kg # rest). strip_key (fst kg') \<noteq> []"
    using ih g(1) by simp
  ultimately show ?case by blast
qed

lemma select_items_keys:
  assumes "select_items its0 dbc = Inr its"
  shows "distinct (map fst its0) \<Longrightarrow> distinct (map fst its)"
    and "fst ` set its0 \<subseteq> S \<Longrightarrow> ''globals'' \<in> S \<Longrightarrow> ''pyodide'' \<in> S \<Longrightarrow> ''PyProxy'' \<in> S
           \<Longrightarrow> fst ` set its \<subseteq> S"
  using assms
proof (induction dbc arbitrary: its0)
  case Nil
  { case 1 then show ?case by simp }
  { case 2 then show ?case by simp }
next
  case (Cons kg rest)
  { case 1
    from 1(2) obtain its1 where step: "select_group its0 kg = Inr its1"
      and more: "select_items its1 rest = Inr its"
      by (auto split: sum.splits)
    from select_group_Inr(5) [OF step 1(1)] have "distinct (map fst its1)" .
    from Cons.IH(1) [OF this more] show ?case . }
  { case 2
    from 2(5) obtain its1 where step: "select_group its0 kg = Inr its1"
      and more: "select_items its1 rest = Inr its"
      by (auto split: sum.splits)
    from select_group_Inr(6) [OF step 2(1-4)] have "fst ` set its1 \<subseteq> S" .
    from Cons.IH(2) [OF this 2(2-4) more] show ?case . }
qed

lemma select_items_supplied:
  assumes "select_items [(''PyProxy'', [])] dbc = Inr its"
  shows "(case map_of its b of None \<Rightarrow> [] | Some g \<Rightarrow> g) = supplied dbc b"
    and "distinct (map fst its)"
    and "fst ` set its \<subseteq> set bucket_keys"
proof -
  have p: "map_of [(''PyProxy'', [])] ''PyProxy'' = Some ([] :: doclet list)" by simp
  note c = select_items_char [OF assms p]
  from select_items_keys(1) [OF assms] show "distinct (map fst its)" by simp
  from select_items_keys(2) [OF assms, of "set bucket_keys"]
  show sub: "fst ` set its \<subseteq> set bucket_keys" by (simp add: bucket_keys_def)
  show "(case map_of its b of None \<Rightarrow> [] | Some g \<Rightarrow> g) = supplied dbc b"
  proof (cases "b \<in> set bucket_keys")
    case True
    then consider "b = ''globals''" | "b = ''pyodide''" | "b = ''PyProxy''"
      by (auto simp add: bucket_keys_def)
    then show ?thesis
    proof cases
      case 1
      with c show ?thesis by (simp add: supplied_def split: option.splits)
    next
      case 2
      with c show ?thesis by (simp add: supplied_def split: option.splits)
    next
      case 3
      with c show ?thesis by (simp add: supplied_def)
    qed
  next
    case False
    with sub have "b \<notin> fst ` set its" by blast
    then have "map_of its b = None" by (simp add: map_of_eq_None_iff)
    with False show ?thesis by (simp add: supplied_def bucket_keys_def)
  qed
qed

lemma select_items_total:
  assumes "map_of its0 ''PyProxy'' \<noteq> None"
  shows "(\<forall>kg\<in>set dbc. strip_key (fst kg) \<noteq> []) \<longrightarrow> (\<exists>its. select_items its0 dbc = Inr its)"
    and "(\<exists>kg\<in>set dbc. strip_key (fst kg) = []) \<longrightarrow> select_items its0 dbc = Inl IndexError"
  using assms
proof (induction dbc arbitrary: its0)
  case Nil
  { case 1 show ?case by simp }
  { case 2 show ?case by simp }
next
  case (Cons kg rest)
  { case 1
    show ?case
    proof
      assume all: "\<forall>kg\<in>set (kg # rest). strip_key (fst kg) \<noteq> []"
      with select_group_total [OF 1, of kg] obtain its1 where
        s: "select_group its0 kg = Inr its1" by auto
      from select_group_Inr(4) [OF s] 1 have "map_of its1 ''PyProxy'' \<noteq> None"
        by (auto split: if_splits)
      from Cons.IH(1) [OF this] all s show "\<exists>its. select_items its0 (kg # rest) = Inr its"
        by simp
    qed }
  { case 2
    show ?case
    proof
      assume ex: "\<exists>kg\<in>set (kg # rest). strip_key (fst kg) = []"
      show "select_items its0 (kg # rest) = Inl IndexError"
      proof (cases "strip_key (fst kg) = []")
        case True
        with select_group_total [OF 2, of kg] show ?thesis by simp
      next
        case False
        with select_group_total [OF 2, of kg] obtain its1 where
          s: "select_group its0 kg = Inr its1" by auto
        from select_group_Inr(4) [OF s] 2 have "map_of its1 ''PyProxy'' \<noteq> None"
          by (auto split: if_splits)
        from Cons.IH(2) [OF this] ex False s show ?thesis by simp
      qed
    qed }
qed

lemma select_items_unmatched:
  assumes "\<forall>kg\<in>set dbc. strip_key (fst kg) \<noteq> []"
  shows "select_items its0 (filter matched dbc) = select_items its0 dbc"
  using assms
proof (induction dbc arbitrary: its0)
  case Nil
  then show ?case by simp
next
  case (Cons kg rest)
  then have ih: "\<And>its1. select_items its1 (filter matched rest) = select_items its1 rest"
    and ne: "strip_key (fst kg) \<noteq> []"
    by simp_all
  show ?case
  proof (cases "matched kg")
    case True
    then show ?thesis by (cases "select_group its0 kg") (simp_all add: ih)
  next
    case False
    from select_group_unmatched [OF False ne] show ?thesis by (simp add: ih)
  qed
qed

lemma last_group_in:
  assumes "last_group sel dbc = Some g"
  shows "g \<in> snd ` set dbc"
proof -
  let ?ms = "filter (\<lambda>kg. sel (strip_key (fst kg))) dbc"
  from assms have ne: "?ms \<noteq> []" and g: "g = snd (last ?ms)"
    by (auto simp add: last_group_def split: if_splits)
  from ne have "last ?ms \<in> set ?ms" by (rule last_in_set)
  then have "last ?ms \<in> set dbc" by simp
  with g show "g \<in> snd ` set dbc" by blast
qed

lemma supplied_subset:
  assumes "j \<in> set (supplied dbc b)"
  shows "\<exists>kg\<in>set dbc. j \<in> set (snd kg)"
proof -
  have opt: "\<exists>kg\<in>set dbc. j \<in> set (snd kg)"
    if "j \<in> set (case last_group sel dbc of None \<Rightarrow> [] | Some g \<Rightarrow> g)" for sel
  proof (cases "last_group sel dbc")
    case None
    with that show ?thesis by simp
  next
    case (Some g)
    from last_group_in [OF Some] that Some show ?thesis by auto
  qed
  show ?thesis
  proof (cases "b = ''PyProxy''")
    case True
    with assms show ?thesis by (force simp add: supplied_def all_groups_def)
  next
    case False
    note np = this
    show ?thesis
    proof (cases "b = ''globals''")
      case True
      with assms np have "j \<in> set (case last_group sel_globals dbc of None \<Rightarrow> [] | Some g \<Rightarrow> g)"
        by (simp add: supplied_def)
      then show ?thesis by (rule opt)
    next
      case False
      note ng = this
      show ?thesis
      proof (cases "b = ''pyodide''")
        case True
        with assms np ng have "j \<in> set (case last_group sel_pyodide dbc of None \<Rightarrow> [] | Some g \<Rightarrow> g)"
          by (simp add: supplied_def)
        then show ?thesis by (rule opt)
      next
        case False
        with assms np ng show ?thesis by (simp add: supplied_def)
      qed
    qed
  qed
qed

section \<open>The categorizer as a whole\<close>

lemma bucket_keys_mem:
  "''globals'' \<in> set bucket_keys" "''pyodide'' \<in> set bucket_keys" "''PyProxy'' \<in> set bucket_keys"
  by (simp_all add: bucket_keys_def)

lemma create_js_doclets_split:
  assumes "create_js_doclets parse inner = Inr docs"
  shows "\<exists>its. select_items [(''PyProxy'', [])] (doclets_by_class inner) = Inr its
           \<and> fill_js_docs parse inner init_js_docs its = Inr docs"
  using assms by (auto simp add: create_js_doclets_def split: sum.splits)

lemma create_js_doclets_docs_of:
  assumes "create_js_doclets parse inner = Inr docs"
  shows "\<exists>f. docs = docs_of f
    \<and> (\<forall>b. list_all2 (\<lambda>j obj. make_object parse inner j = Inr obj)
              (filter (\<lambda>j. \<not> is_private j \<and> map_of j ''kind'' \<noteq> Some ''function'')
                 (supplied (doclets_by_class inner) b))
              (f b ''attribute'')
           \<and> list_all2 (\<lambda>j obj. make_object parse inner j = Inr obj)
              (filter (\<lambda>j. \<not> is_private j \<and> map_of j ''kind'' = Some ''function'')
                 (supplied (doclets_by_class inner) b))
              (f b ''function''))"
proof -
  from create_js_doclets_split [OF assms] obtain its where
    sel: "select_items [(''PyProxy'', [])] (doclets_by_class inner) = Inr its"
    and fill: "fill_js_docs parse inner (docs_of (\<lambda>b k. [])) its = Inr docs"
    by (auto simp add: init_js_docs_docs_of)
  note s = select_items_supplied [OF sel]
  from fill_js_docs_docs_of [OF fill s(2) s(3)] obtain f where
    docs: "docs = docs_of f"
    and keep: "\<forall>b. map_of its b = None \<longrightarrow> f b = (\<lambda>k. [])"
    and ext: "\<forall>b g. map_of its b = Some g \<longrightarrow>
                (\<exists>A F. f b ''attribute'' = [] @ A
                   \<and> f b ''function'' = [] @ F
                   \<and> list_all2 (\<lambda>j obj. make_object parse inner j = Inr obj)
                        (filter (\<lambda>j. \<not> is_private j \<and> map_of j ''kind'' \<noteq> Some ''function'') g) A
                   \<and> list_all2 (\<lambda>j obj. make_object parse inner j = Inr obj)
                        (filter (\<lambda>j. \<not> is_private j \<and> map_of j ''kind'' = Some ''function'') g) F)"
    by blast
  have "list_all2 (\<lambda>j obj. make_object parse inner j = Inr obj)
              (filter (\<lambda>j. \<not> is_private j \<and> map_of j ''kind'' \<noteq> Some ''function'')
                 (supplied (doclets_by_class inner) b))
              (f b ''attribute'')
           \<and> list_all2 (\<lambda>j obj. make_object parse inner j = Inr obj)
              (filter (\<lambda>j. \<not> is_private j \<and> map_of j ''kind'' = Some ''function'')
                 (supplied (doclets_by_class inner) b))
              (f b ''function'')" for b
  proof (cases "map_of its b")
    case None
    with s(1) [of b] have "supplied (doclets_by_class inner) b = []" by simp
    moreover from keep None have "f b = (\<lambda>k. [])" by simp
    ultimately show ?thesis by simp
  next
    case (Some g)
    with s(1) [of b] have "supplied (doclets_by_class inner) b = g" by simp
    with ext [rule_format, OF Some] show ?thesis by auto
  qed
  with docs show ?thesis by blast
qed

lemma create_js_doclets_bucket:
  assumes "create_js_doclets parse inner = Inr docs"
    and "b \<in> set bucket_keys"
  shows "\<exists>as fs. map_of docs b = Some [(''attribute'', as), (''function'', fs)]
    \<and> list_all2 (\<lambda>j obj. make_object parse inner j = Inr obj)
         (filter (\<lambda>j. \<not> is_private j \<and> map_of j ''kind'' \<noteq> Some ''function'')
            (supplied (doclets_by_class inner) b)) as
    \<and> list_all2 (\<lambda>j obj. make_object parse inner j = Inr obj)
         (filter (\<lambda>j. \<not> is_private j \<and> map_of j ''kind'' = Some ''function'')
            (supplied (doclets_by_class inner) b)) fs"
proof -
  from create_js_doclets_docs_of [OF assms(1)] obtain f where
    docs: "docs = docs_of f"
    and c: "\<forall>b. list_all2 (\<lambda>j obj. make_object parse inner j = Inr obj)
              (filter (\<lambda>j. \<not> is_private j \<and> map_of j ''kind'' \<noteq> Some ''function'')
                 (supplied (doclets_by_class inner) b))
              (f b ''attribute'')
           \<and> list_all2 (\<lambda>j obj. make_object parse inner j = Inr obj)
              (filter (\<lambda>j. \<not> is_private j \<and> map_of j ''kind'' = Some ''function'')
                 (supplied (doclets_by_class inner) b))
              (f b ''function'')"
    by blast
  from docs assms(2) have
    "map_of docs b = Some [(''attribute'', f b ''attribute''), (''function'', f b ''function'')]"
    by (simp add: map_of_docs_of)
  with c [rule_format, of b] show ?thesis by blast
qed

lemma create_js_doclets_no_bucket:
  assumes "create_js_doclets parse inner = Inr docs"
    and "b \<notin> set bucket_keys"
  shows "map_of docs b = None"
proof -
  from create_js_doclets_docs_of [OF assms(1)] obtain f where "docs = docs_of f" by blast
  with assms(2) show ?thesis by (simp add: map_of_docs_of)
qed

lemma add_doclets_succeeds:
  assumes "b \<in> set bucket_keys"
    and "\<forall>j\<in>set js. \<not> is_private j \<longrightarrow> (\<exists>obj. make_object parse inner j = Inr obj)"
  shows "\<exists>f'. add_doclets parse inner b (docs_of f) js = Inr (docs_of f')"
  using assms(2)
proof (induction js arbitrary: f)
  case Nil
  show ?case by auto
next
  case (Cons j js)
  have "\<exists>f1. add_doclet parse inner b (docs_of f) j = Inr (docs_of f1)"
  proof (cases "is_private j")
    case True
    then show ?thesis by (auto simp add: add_doclet_def)
  next
    case False
    with Cons.prems obtain obj where mk: "make_object parse inner j = Inr obj" by auto
    then have "kind obj \<in> {''attribute'', ''function''}"
      by (auto dest: make_object_kind split: if_splits)
    from append_obj_docs_of [OF assms(1) this] mk False show ?thesis
      by (auto simp add: add_doclet_def)
  qed
  then obtain f1 where "add_doclet parse inner b (docs_of f) j = Inr (docs_of f1)" by blast
  moreover from Cons.IH [of f1] Cons.prems
  obtain f' where "add_doclets parse inner b (docs_of f1) js = Inr (docs_of f')" by auto
  ultimately show ?case by auto
qed

lemma fill_js_docs_succeeds:
  assumes "fst ` set its \<subseteq> set bucket_keys"
    and "\<forall>kv\<in>set its. \<forall>j\<in>set (snd kv).
           \<not> is_private j \<longrightarrow> (\<exists>obj. make_object parse inner j = Inr obj)"
  shows "\<exists>f'. fill_js_docs parse inner (docs_of f) its = Inr (docs_of f')"
  using assms
proof (induction its arbitrary: f)
  case Nil
  show ?case by auto
next
  case (Cons kv its)
  from Cons.prems have b: "fst kv \<in> set bucket_keys"
    and js: "\<forall>j\<in>set (snd kv). \<not> is_private j \<longrightarrow> (\<exists>obj. make_object parse inner j = Inr obj)"
    by auto
  from add_doclets_succeeds [OF b js, of f] obtain f1 where
    "add_doclets parse inner (fst kv) (docs_of f) (snd kv) = Inr (docs_of f1)" by blast
  moreover from Cons.IH [of f1] Cons.prems
  obtain f' where "fill_js_docs parse inner (docs_of f1) its = Inr (docs_of f')" by auto
  ultimately show ?case by auto
qed

lemma create_js_doclets_succeeds:
  assumes "\<forall>kg\<in>set (doclets_by_class inner). strip_key (fst kg) \<noteq> []"
    and "\<forall>b\<in>set bucket_keys. \<forall>j\<in>set (supplied (doclets_by_class inner) b).
           \<not> is_private j \<longrightarrow> (\<exists>obj. make_object parse inner j = Inr obj)"
  shows "\<exists>docs. create_js_doclets parse inner = Inr docs"
proof -
  have "map_of [(''PyProxy'', [])] ''PyProxy'' \<noteq> (None :: doclet list option)" by simp
  from select_items_total(1) [OF this, of "doclets_by_class inner"] assms(1)
  obtain its where sel: "select_items [(''PyProxy'', [])] (doclets_by_class inner) = Inr its"
    by blast
  note s = select_items_supplied [OF sel]
  have "\<forall>kv\<in>set its. \<forall>j\<in>set (snd kv).
           \<not> is_private j \<longrightarrow> (\<exists>obj. make_object parse inner j = Inr obj)"
  proof (intro ballI impI)
    fix kv j
    assume kv: "kv \<in> set its" and j: "j \<in> set (snd kv)" and np: "\<not> is_private j"
    from kv s(3) have b: "fst kv \<in> set bucket_keys" by auto
    from kv s(2) have "map_of its (fst kv) = Some (snd kv)" by simp
    with s(1) [of "fst kv"] have "supplied (doclets_by_class inner) (fst kv) = snd kv" by simp
    with j have "j \<in> set (supplied (doclets_by_class inner) (fst kv))" by simp
    with assms(2) b np show "\<exists>obj. make_object parse inner j = Inr obj" by blast
  qed
  from fill_js_docs_succeeds [OF s(3) this, of "\<lambda>b k. []"] sel show ?thesis
    by (auto simp add: create_js_doclets_def init_js_docs_docs_of)
qed

lemma create_js_doclets_empty_key:
  assumes "\<exists>kg\<in>set (doclets_by_class inner). strip_key (fst kg) = []"
  shows "create_js_doclets parse inner = Inl IndexError"
proof -
  have "map_of [(''PyProxy'', [])] ''PyProxy'' \<noteq> (None :: doclet list option)" by simp
  from select_items_total(2) [OF this, of "doclets_by_class inner"] assms
  show ?thesis by (simp add: create_js_doclets_def)
qed

section \<open>Doclets and groups that leave no trace\<close>

lemma get_object_from_json_cong:
  "get_object inner' = get_object inner \<Longrightarrow>
     get_object_from_json parse inner' json = get_object_from_json parse inner json"
  by (simp add: get_object_from_json_def Let_def split: option.splits sum.splits)

lemma make_object_cong:
  assumes "get_object inner' = get_object inner"
  shows "make_object parse inner' json = make_object parse inner json"
  unfolding make_object_def get_object_from_json_cong [OF assms] ..

lemma add_doclet_cong:
  assumes "get_object inner' = get_object inner"
  shows "add_doclet parse inner' key docs json = add_doclet parse inner key docs json"
  unfolding add_doclet_def make_object_cong [OF assms] ..

lemma add_doclets_cong:
  assumes "get_object inner' = get_object inner"
  shows "add_doclets parse inner' key docs js = add_doclets parse inner key docs js"
proof (induction js arbitrary: docs)
  case Nil
  show ?case by simp
next
  case (Cons j js)
  show ?case
    by (cases "add_doclet parse inner key docs j")
      (simp_all add: add_doclet_cong [OF assms] Cons.IH)
qed

lemma fill_js_docs_cong:
  assumes "get_object inner' = get_object inner"
  shows "fill_js_docs parse inner' docs its = fill_js_docs parse inner docs its"
proof (induction its arbitrary: docs)
  case Nil
  show ?case by simp
next
  case (Cons kv its)
  show ?case
    by (cases "add_doclets parse inner (fst kv) docs (snd kv)")
      (simp_all add: add_doclets_cong [OF assms] Cons.IH)
qed

lemma add_doclets_filter_private:
  "add_doclets parse inner key docs (filter (\<lambda>j. \<not> is_private j) js)
     = add_doclets parse inner key docs js"
  by (induction js arbitrary: docs) (simp_all add: add_doclet_def split: sum.splits)

lemma fill_js_docs_filter_private:
  "fill_js_docs parse inner docs (map (\<lambda>kv. (fst kv, filter (\<lambda>j. \<not> is_private j) (snd kv))) its)
     = fill_js_docs parse inner docs its"
  by (induction its arbitrary: docs)
    (simp_all add: add_doclets_filter_private split: sum.splits)

lemma update_map_values:
  "AList.update k (h v) (map (\<lambda>kv. (fst kv, h (snd kv))) al)
     = map (\<lambda>kv. (fst kv, h (snd kv))) (AList.update k v al)"
  by (induction al) simp_all

lemma map_of_map_values:
  "map_of (map (\<lambda>kv. (fst kv, h (snd kv))) al) k = map_option h (map_of al k)"
  by (induction al) simp_all

lemma select_group_unfold:
  assumes "strip_key (fst kg) \<noteq> []"
  shows "select_group its kg =
     (let its1 = (if sel_globals (strip_key (fst kg))
                  then AList.update ''globals'' (snd kg) its else its);
          its2 = (if sel_pyodide (strip_key (fst kg))
                  then AList.update ''pyodide'' (snd kg) its1 else its1)
      in if sel_pyproxy (strip_key (fst kg))
         then (case map_of its2 ''PyProxy'' of
                 None \<Rightarrow> Inl KeyError
               | Some old \<Rightarrow> Inr (AList.update ''PyProxy'' (old @ snd kg) its2))
         else Inr its2)"
  using assms by (simp add: select_group_def Let_def)

lemma select_commute_aux:
  fixes F :: "items \<Rightarrow> items" and h :: "doclet list \<Rightarrow> doclet list"
  assumes u: "\<And>k v al. AList.update k (h v) (F al) = F (AList.update k v al)"
    and m: "\<And>al k. map_of (F al) k = map_option h (map_of al k)"
    and app: "\<And>a b. h a @ h b = h (a @ b)"
  shows "(let its1 = (if c1 then AList.update k1 (h g) (F its) else F its);
              its2 = (if c2 then AList.update k2 (h g) its1 else its1)
          in if c3
             then (case map_of its2 k3 of
                     None \<Rightarrow> Inl KeyError
                   | Some old \<Rightarrow> Inr (AList.update k3 (old @ h g) its2))
             else Inr its2)
       = (case (let its1 = (if c1 then AList.update k1 g its else its);
                    its2 = (if c2 then AList.update k2 g its1 else its1)
                in if c3
                   then (case map_of its2 k3 of
                           None \<Rightarrow> Inl KeyError
                         | Some old \<Rightarrow> Inr (AList.update k3 (old @ g) its2))
                   else Inr its2) of
            Inl e \<Rightarrow> Inl e
          | Inr its' \<Rightarrow> Inr (F its'))"
  by (cases c1; cases c2; cases c3) (simp_all add: u m app split: option.splits)

lemma select_group_filter_private:
  "select_group (map (\<lambda>kv. (fst kv, filter (\<lambda>j. \<not> is_private j) (snd kv))) its)
       (fst kg, filter (\<lambda>j. \<not> is_private j) (snd kg))
     = (case select_group its kg of
          Inl e \<Rightarrow> Inl e
        | Inr its' \<Rightarrow> Inr (map (\<lambda>kv. (fst kv, filter (\<lambda>j. \<not> is_private j) (snd kv))) its'))"
proof (cases "strip_key (fst kg) = []")
  case True
  then show ?thesis by (simp add: select_group_def)
next
  case False
  let ?h = "filter (\<lambda>j. \<not> is_private j)"
  let ?F = "map (\<lambda>kv. (fst kv, ?h (snd kv)))"
  have u: "\<And>k v al. AList.update k (?h v) (?F al) = ?F (AList.update k v al)"
    by (rule update_map_values)
  have m: "\<And>al k. map_of (?F al) k = map_option ?h (map_of al k)"
    by (rule map_of_map_values)
  have app: "\<And>a b. ?h a @ ?h b = ?h (a @ b)" by simp
  from False have ne': "strip_key (fst (fst kg, ?h (snd kg))) \<noteq> []" by simp
  show ?thesis
    by (simp only: select_group_unfold [OF ne'] select_group_unfold [OF False]
          fst_conv snd_conv select_commute_aux [of ?h ?F, OF u m app])
qed

lemma select_items_filter_private:
  "select_items (map (\<lambda>kv. (fst kv, filter (\<lambda>j. \<not> is_private j) (snd kv))) its)
       (map (\<lambda>kg. (fst kg, filter (\<lambda>j. \<not> is_private j) (snd kg))) dbc)
     = (case select_items its dbc of
          Inl e \<Rightarrow> Inl e
        | Inr its' \<Rightarrow> Inr (map (\<lambda>kv. (fst kv, filter (\<lambda>j. \<not> is_private j) (snd kv))) its'))"
proof (induction dbc arbitrary: its)
  case Nil
  show ?case by simp
next
  case (Cons kg rest)
  show ?case
  proof (cases "select_group its kg")
    case (Inl e)
    with select_group_filter_private [of its kg] show ?thesis by simp
  next
    case (Inr its1)
    with select_group_filter_private [of its kg] Cons.IH [of its1] show ?thesis by simp
  qed
qed

lemma create_js_doclets_without_private:
  "create_js_doclets parse (without_private inner) = create_js_doclets parse inner"
proof -
  have g: "get_object (without_private inner) = get_object inner"
    by (simp add: without_private_def)
  have d: "doclets_by_class (without_private inner)
             = map (\<lambda>kg. (fst kg, filter (\<lambda>j. \<not> is_private j) (snd kg))) (doclets_by_class inner)"
    by (simp add: without_private_def)
  have i: "[(''PyProxy'', [])]
             = map (\<lambda>kv. (fst kv, filter (\<lambda>j. \<not> is_private j) (snd kv))) [(''PyProxy'', [])]"
    by simp
  have "select_items [(''PyProxy'', [])] (doclets_by_class (without_private inner))
          = (case select_items [(''PyProxy'', [])] (doclets_by_class inner) of
               Inl e \<Rightarrow> Inl e
             | Inr its' \<Rightarrow> Inr (map (\<lambda>kv. (fst kv, filter (\<lambda>j. \<not> is_private j) (snd kv))) its'))"
    unfolding d by (subst i) (rule select_items_filter_private)
  then show ?thesis
    by (simp add: create_js_doclets_def fill_js_docs_cong [OF g] fill_js_docs_filter_private
          split: sum.splits)
qed

lemma create_js_doclets_without_unmatched:
  assumes "\<forall>kg\<in>set (doclets_by_class inner). strip_key (fst kg) \<noteq> []"
  shows "create_js_doclets parse (without_unmatched inner) = create_js_doclets parse inner"
proof -
  have g: "get_object (without_unmatched inner) = get_object inner"
    by (simp add: without_unmatched_def)
  have d: "doclets_by_class (without_unmatched inner) = filter matched (doclets_by_class inner)"
    by (simp add: without_unmatched_def)
  show ?thesis
    by (simp add: create_js_doclets_def d select_items_unmatched [OF assms] fill_js_docs_cong [OF g]
          split: sum.splits)
qed

section \<open>Replacing and restoring the colon\<close>

lemma str_replace_Nil: "old \<noteq> [] \<Longrightarrow> str_replace old new [] = []"
  by (simp add: str_replace.simps)

lemma str_replace_match:
  "old \<noteq> [] \<Longrightarrow> str_replace old new (old @ s) = new @ str_replace old new s"
  by (subst str_replace.simps) simp

lemma str_replace_skip:
  "old \<noteq> [] \<Longrightarrow> take (length old) (c # s) \<noteq> old \<Longrightarrow>
     str_replace old new (c # s) = c # str_replace old new s"
  by (subst str_replace.simps) simp

lemma str_replace_char:
  "str_replace [c] new s = concat (map (\<lambda>x. if x = c then new else [x]) s)"
proof (induction s)
  case Nil
  show ?case by (simp add: str_replace_Nil)
next
  case (Cons x s)
  show ?case
  proof (cases "x = c")
    case True
    with str_replace_match [of "[c]" new s] Cons.IH show ?thesis by simp
  next
    case False
    with str_replace_skip [of "[c]" x s new] Cons.IH show ?thesis by simp
  qed
qed

lemma first_occurrence_unique:
  assumes "c \<notin> set p" and "c \<notin> set q" and "p @ c # u = q @ c # v"
  shows "p = q"
proof -
  from assms(1) have "takeWhile (\<lambda>x. x \<noteq> c) (p @ c # u) = p"
    by (induction p) auto
  moreover from assms(2) have "takeWhile (\<lambda>x. x \<noteq> c) (q @ c # v) = q"
    by (induction q) auto
  ultimately show ?thesis using assms(3) by simp
qed

lemma escaped_first_mark:
  assumes "c \<notin> set p"
    and "concat (map (\<lambda>x. if x = c then p @ [c] else [x]) s) = q @ c # rest"
    and "c \<notin> set q"
  shows "length p \<le> length q"
  using assms(2,3)
proof (induction s arbitrary: q)
  case Nil
  then show ?case by simp
next
  case (Cons y s)
  show ?case
  proof (cases "y = c")
    case True
    with Cons.prems(1) have
      "p @ c # concat (map (\<lambda>x. if x = c then p @ [c] else [x]) s) = q @ c # rest"
      by simp
    from first_occurrence_unique [OF assms(1) Cons.prems(2) this] show ?thesis by simp
  next
    case False
    with Cons.prems(1) have eq:
      "y # concat (map (\<lambda>x. if x = c then p @ [c] else [x]) s) = q @ c # rest"
      by simp
    with False obtain q' where q: "q = y # q'" by (cases q) auto
    with eq have "concat (map (\<lambda>x. if x = c then p @ [c] else [x]) s) = q' @ c # rest"
      by simp
    moreover from Cons.prems(2) q have "c \<notin> set q'" by simp
    ultimately have "length p \<le> length q'" by (rule Cons.IH)
    with q show ?thesis by simp
  qed
qed

lemma escaped_no_early_match:
  assumes "c \<notin> set p" and "y \<noteq> c"
  shows "take (length (p @ [c])) (y # concat (map (\<lambda>x. if x = c then p @ [c] else [x]) s))
           \<noteq> p @ [c]"
proof
  let ?e = "concat (map (\<lambda>x. if x = c then p @ [c] else [x]) s)"
  assume t: "take (length (p @ [c])) (y # ?e) = p @ [c]"
  have "y # ?e = take (length (p @ [c])) (y # ?e) @ drop (length (p @ [c])) (y # ?e)"
    by (simp only: append_take_drop_id)
  with t have eq: "y # ?e = p @ c # drop (length (p @ [c])) (y # ?e)" by simp
  with assms(2) obtain p' where p: "p = y # p'" by (cases p) auto
  with eq have "?e = p' @ c # drop (length (p @ [c])) (y # ?e)" by simp
  moreover from assms(1) p have "c \<notin> set p'" by simp
  ultimately have "length p \<le> length p'" by (rule escaped_first_mark [OF assms(1)])
  with p show False by simp
qed

lemma unescape_escape:
  assumes "c \<notin> set p"
  shows "str_replace (p @ [c]) [c] (str_replace [c] (p @ [c]) s) = s"
proof -
  let ?esc = "\<lambda>s. concat (map (\<lambda>x. if x = c then p @ [c] else [x]) s)"
  have "str_replace (p @ [c]) [c] (?esc s) = s"
  proof (induction s)
    case Nil
    show ?case by (simp add: str_replace_Nil)
  next
    case (Cons y s)
    show ?case
    proof (cases "y = c")
      case True
      have "str_replace (p @ [c]) [c] ((p @ [c]) @ ?esc s) = [c] @ str_replace (p @ [c]) [c] (?esc s)"
        by (rule str_replace_match) simp
      with True Cons.IH show ?thesis by simp
    next
      case False
      have "str_replace (p @ [c]) [c] (y # ?esc s) = y # str_replace (p @ [c]) [c] (?esc s)"
        by (rule str_replace_skip) (simp, rule escaped_no_early_match [OF assms False])
      with False Cons.IH show ?thesis by simp
    qed
  qed
  then show ?thesis by (simp add: str_replace_char)
qed

lemma colon_esc_split:
  "colon_esc = (''esccolon'' @ [backslash, CHR 0xC2, CHR 0xAF] @ ''hoa'') @ '':''"
  by (simp add: colon_esc_def)

lemma colon_esc_prefix_no_colon:
  "CHR '':'' \<notin> set (''esccolon'' @ [backslash, CHR 0xC2, CHR 0xAF] @ ''hoa'')"
  by (simp add: backslash_def)

lemma unescape_escape_colon:
  "str_replace colon_esc '':'' (str_replace '':'' colon_esc s) = s"
  unfolding colon_esc_split by (rule unescape_escape [OF colon_esc_prefix_no_colon])

section \<open>The directives on a bucket\<close>

lemma sample_run:
  "create_js_doclets demo_parse (demo_analyzer sample_table) = Inr sample_docs"
  by code_simp

lemma title_attribute: "title ''attribute'' = ''Attribute''" by code_simp

lemma title_function: "title ''function'' = ''Function''" by code_simp

lemma content_rst_bucket:
  assumes "map_of docs b = Some [(''attribute'', as), (''function'', fs)]"
  shows "content_rst R docs [b]
           = Inr [[''.. js:module:: '' @ b], map (get_rst R) as, map (get_rst R) fs]"
  using assms by (simp add: content_rst_def get_rst_for_group_def)

lemma run_summary_bucket:
  assumes "map_of docs b = Some [(''attribute'', as), (''function'', fs)]"
  shows "run_summary E docs [b]
           = Inr ((if as = [] then []
                   else [Heading ''Attributes:'', Tabular_col_spec table_spec,
                         Autosummary_table (map (table_row E) (get_summary_table E b as))])
                  @ (if fs = [] then []
                     else [Heading ''Functions:'', Tabular_col_spec table_spec,
                           Autosummary_table (map (table_row E) (get_summary_table E b fs))]))"
  using assms
  by (simp add: run_summary_def title_attribute title_function format_heading_def
        format_table_def)

section \<open>The claims\<close>

subsection \<open>The groups that fill the buckets\<close>

lemma create_js_doclets_keys_nonempty:
  assumes "create_js_doclets parse inner = Inr docs"
  shows "\<forall>kg\<in>set (doclets_by_class inner). strip_key (fst kg) \<noteq> []"
proof (rule ccontr)
  assume "\<not> (\<forall>kg\<in>set (doclets_by_class inner). strip_key (fst kg) \<noteq> [])"
  then have "\<exists>kg\<in>set (doclets_by_class inner). strip_key (fst kg) = []" by simp
  from create_js_doclets_empty_key [OF this, of parse] assms show False by simp
qed

lemma supplied_simps:
  "supplied dbc ''globals'' = (case last_group sel_globals dbc of None \<Rightarrow> [] | Some g \<Rightarrow> g)"
  "supplied dbc ''pyodide'' = (case last_group sel_pyodide dbc of None \<Rightarrow> [] | Some g \<Rightarrow> g)"
  "supplied dbc ''PyProxy'' = all_groups sel_pyproxy dbc"
  by (simp_all add: supplied_def)

text \<open>
  Claim C1, as the code has it. Whenever the categorizer completes, each bucket holds the
  objects of the retained doclets of its source, in order: \<open>globals\<close> is filled from
  the last group, in the order of iteration, whose key without the components that contain
  a slash ends in \<open>globalThis\<close>; \<open>pyodide\<close> from the last group whose stripped
  key starts with \<open>pyodide.\<close> and ends in \<open>Module\<close>; \<open>PyProxy\<close> from all
  the groups whose stripped key starts with \<open>pyproxy.\<close>, one after the other. A group
  that meets none of the three conditions contributes nothing: without the unmatched
  groups the result is the same.
\<close>

theorem groups_fill_buckets:
  assumes "create_js_doclets parse inner = Inr docs"
  shows "bucket_holds parse inner docs ''globals''
           (case last_group sel_globals (doclets_by_class inner) of None \<Rightarrow> [] | Some g \<Rightarrow> g)
       \<and> bucket_holds parse inner docs ''pyodide''
           (case last_group sel_pyodide (doclets_by_class inner) of None \<Rightarrow> [] | Some g \<Rightarrow> g)
       \<and> bucket_holds parse inner docs ''PyProxy''
           (all_groups sel_pyproxy (doclets_by_class inner))
       \<and> create_js_doclets parse (without_unmatched inner) = Inr docs"
proof -
  note b = create_js_doclets_bucket [OF assms]
  from b [OF bucket_keys_mem(1)] have "bucket_holds parse inner docs ''globals''
           (case last_group sel_globals (doclets_by_class inner) of None \<Rightarrow> [] | Some g \<Rightarrow> g)"
    unfolding bucket_holds_def supplied_simps .
  moreover from b [OF bucket_keys_mem(2)] have "bucket_holds parse inner docs ''pyodide''
           (case last_group sel_pyodide (doclets_by_class inner) of None \<Rightarrow> [] | Some g \<Rightarrow> g)"
    unfolding bucket_holds_def supplied_simps .
  moreover from b [OF bucket_keys_mem(3)] have "bucket_holds parse inner docs ''PyProxy''
           (all_groups sel_pyproxy (doclets_by_class inner))"
    unfolding bucket_holds_def supplied_simps .
  moreover from create_js_doclets_without_unmatched [OF create_js_doclets_keys_nonempty [OF assms]]
    assms have "create_js_doclets parse (without_unmatched inner) = Inr docs" by simp
  ultimately show ?thesis by simp
qed

theorem groups_fill_buckets_witness:
  "create_js_doclets demo_parse (demo_analyzer sample_table) = Inr sample_docs
   \<and> bucket_holds demo_parse (demo_analyzer sample_table) sample_docs ''globals''
        [doclet_foo, doclet_hidden]
   \<and> bucket_holds demo_parse (demo_analyzer sample_table) sample_docs ''pyodide'' [doclet_bar]
   \<and> bucket_holds demo_parse (demo_analyzer sample_table) sample_docs ''PyProxy'' [doclet_baz]
   \<and> create_js_doclets demo_parse (without_unmatched (demo_analyzer sample_table))
        = Inr sample_docs"
proof -
  have g: "(case last_group sel_globals (doclets_by_class (demo_analyzer sample_table)) of
              None \<Rightarrow> [] | Some g \<Rightarrow> g) = [doclet_foo, doclet_hidden]"
    by (simp add: last_group_def demo_analyzer_def sample_table_def strip_key_def sel_globals_def)
  have m: "(case last_group sel_pyodide (doclets_by_class (demo_analyzer sample_table)) of
              None \<Rightarrow> [] | Some g \<Rightarrow> g) = [doclet_bar]"
    by (simp add: last_group_def demo_analyzer_def sample_table_def strip_key_def sel_pyodide_def)
  have p: "all_groups sel_pyproxy (doclets_by_class (demo_analyzer sample_table)) = [doclet_baz]"
    by (simp add: all_groups_def demo_analyzer_def sample_table_def strip_key_def sel_pyproxy_def)
  from groups_fill_buckets [OF sample_run] sample_run show ?thesis
    unfolding g m p by simp
qed

theorem two_globalThis_groups_counterexample:
  "sel_globals (strip_key [''./'', ''a.'', ''globalThis''])
   \<and> create_js_doclets demo_parse
        (demo_analyzer [([''./'', ''a.'', ''globalThis''], [doclet_foo]),
                        ([''./'', ''b.'', ''globalThis''], [doclet_baz])])
      = Inr [(''globals'', [(''attribute'', []), (''function'', [obj_baz])]),
             (''pyodide'', [(''attribute'', []), (''function'', [])]),
             (''PyProxy'', [(''attribute'', []), (''function'', [])])]"
  by code_simp

subsection \<open>Private doclets\<close>

lemma list_all2_right_mem:
  assumes "list_all2 P xs ys" and "y \<in> set ys"
  shows "\<exists>x\<in>set xs. P x y"
  using assms by (induction rule: list_all2_induct) auto

lemma sub_bucket_objects:
  assumes "create_js_doclets parse inner = Inr docs"
    and "map_of docs b = Some bucket"
    and "map_of bucket k = Some objs"
    and "obj \<in> set objs"
  shows "\<exists>j\<in>set (supplied (doclets_by_class inner) b).
           \<not> is_private j \<and> make_object parse inner j = Inr obj"
proof -
  have b: "b \<in> set bucket_keys"
  proof (rule ccontr)
    assume "b \<notin> set bucket_keys"
    from create_js_doclets_no_bucket [OF assms(1) this] assms(2) show False by simp
  qed
  from create_js_doclets_bucket [OF assms(1) b] assms(2) obtain as fs where
    bucket: "bucket = [(''attribute'', as), (''function'', fs)]"
    and as: "list_all2 (\<lambda>j obj. make_object parse inner j = Inr obj)
         (filter (\<lambda>j. \<not> is_private j \<and> map_of j ''kind'' \<noteq> Some ''function'')
            (supplied (doclets_by_class inner) b)) as"
    and fs: "list_all2 (\<lambda>j obj. make_object parse inner j = Inr obj)
         (filter (\<lambda>j. \<not> is_private j \<and> map_of j ''kind'' = Some ''function'')
            (supplied (doclets_by_class inner) b)) fs"
    by auto
  from bucket assms(3,4) consider "obj \<in> set as" | "obj \<in> set fs"
    by (auto split: if_splits)
  then show ?thesis
  proof cases
    case 1
    from list_all2_right_mem [OF as 1] show ?thesis by auto
  next
    case 2
    from list_all2_right_mem [OF fs 2] show ?thesis by auto
  qed
qed

text \<open>
  Claim C2. A private doclet leaves no trace in the buckets: the categorizer gives the same
  result (or raises the same error) on the table without its private doclets, and every
  object found in a sub-bucket of a bucket was made from a doclet of the table that is not
  private.
\<close>

theorem private_doclets_dropped:
  assumes "create_js_doclets parse inner = Inr docs"
    and "map_of docs b = Some bucket"
    and "map_of bucket k = Some objs"
    and "obj \<in> set objs"
  shows "create_js_doclets parse (without_private inner) = create_js_doclets parse inner
       \<and> (\<exists>kg\<in>set (doclets_by_class inner). \<exists>j\<in>set (snd kg).
             \<not> is_private j \<and> make_object parse inner j = Inr obj)"
proof -
  from sub_bucket_objects [OF assms] obtain j where
    j: "j \<in> set (supplied (doclets_by_class inner) b)"
    and np: "\<not> is_private j" and mk: "make_object parse inner j = Inr obj"
    by blast
  from supplied_subset [OF j] obtain kg where
    "kg \<in> set (doclets_by_class inner)" "j \<in> set (snd kg)" by blast
  with np mk have "\<exists>kg\<in>set (doclets_by_class inner). \<exists>j\<in>set (snd kg).
             \<not> is_private j \<and> make_object parse inner j = Inr obj" by blast
  with create_js_doclets_without_private [of parse inner] show ?thesis by simp
qed

theorem private_doclets_dropped_witness:
  "is_private doclet_hidden
   \<and> doclet_hidden \<in> set (snd (hd sample_table))
   \<and> create_js_doclets demo_parse (demo_analyzer sample_table) = Inr sample_docs
   \<and> map_of sample_docs ''globals'' = Some [(''attribute'', []), (''function'', [obj_foo])]
   \<and> create_js_doclets demo_parse (without_private (demo_analyzer sample_table))
        = create_js_doclets demo_parse (demo_analyzer sample_table)
   \<and> (\<exists>kg\<in>set (doclets_by_class (demo_analyzer sample_table)). \<exists>j\<in>set (snd kg).
         \<not> is_private j \<and> make_object demo_parse (demo_analyzer sample_table) j = Inr obj_foo)"
proof -
  have h: "is_private doclet_hidden" "doclet_hidden \<in> set (snd (hd sample_table))"
    by (simp_all add: is_private_def doclet_hidden_def sample_table_def)
  have b: "map_of sample_docs ''globals'' = Some [(''attribute'', []), (''function'', [obj_foo])]"
    by (simp add: sample_docs_def)
  have k: "map_of [(''attribute'', []), (''function'', [obj_foo])] ''function'' = Some [obj_foo]"
    by simp
  have o: "obj_foo \<in> set [obj_foo]" by simp
  from private_doclets_dropped [OF sample_run b k o] h sample_run b show ?thesis by simp
qed

subsection \<open>The kind tag and the sub-bucket\<close>

text \<open>
  Claim C3. In every bucket the retained doclets whose \<^verbatim>\<open>kind\<close> field is
  \<^verbatim>\<open>function\<close> are exactly the source, in order, of the \<open>function\<close>
  sub-bucket and their objects carry the kind \<open>function\<close>; all other retained doclets
  are the source of the \<open>attribute\<close> sub-bucket and their objects carry the kind
  \<open>attribute\<close>.
\<close>

theorem kind_tag_names_sub_bucket:
  assumes "create_js_doclets parse inner = Inr docs"
    and "b \<in> set bucket_keys"
  shows "\<exists>as fs. map_of docs b = Some [(''attribute'', as), (''function'', fs)]
    \<and> list_all2 (\<lambda>j obj. make_object parse inner j = Inr obj \<and> kind obj = ''attribute'')
         (filter (\<lambda>j. \<not> is_private j \<and> map_of j ''kind'' \<noteq> Some ''function'')
            (supplied (doclets_by_class inner) b)) as
    \<and> list_all2 (\<lambda>j obj. make_object parse inner j = Inr obj \<and> kind obj = ''function'')
         (filter (\<lambda>j. \<not> is_private j \<and> map_of j ''kind'' = Some ''function'')
            (supplied (doclets_by_class inner) b)) fs"
proof -
  from create_js_doclets_bucket [OF assms] obtain as fs where
    bucket: "map_of docs b = Some [(''attribute'', as), (''function'', fs)]"
    and as: "list_all2 (\<lambda>j obj. make_object parse inner j = Inr obj)
         (filter (\<lambda>j. \<not> is_private j \<and> map_of j ''kind'' \<noteq> Some ''function'')
            (supplied (doclets_by_class inner) b)) as"
    and fs: "list_all2 (\<lambda>j obj. make_object parse inner j = Inr obj)
         (filter (\<lambda>j. \<not> is_private j \<and> map_of j ''kind'' = Some ''function'')
            (supplied (doclets_by_class inner) b)) fs"
    by blast
  from as have "list_all2 (\<lambda>j obj. make_object parse inner j = Inr obj \<and> kind obj = ''attribute'')
         (filter (\<lambda>j. \<not> is_private j \<and> map_of j ''kind'' \<noteq> Some ''function'')
            (supplied (doclets_by_class inner) b)) as"
    by (rule list.rel_mono_strong) (simp add: make_object_kind)
  moreover from fs have "list_all2 (\<lambda>j obj. make_object parse inner j = Inr obj \<and> kind obj = ''function'')
         (filter (\<lambda>j. \<not> is_private j \<and> map_of j ''kind'' = Some ''function'')
            (supplied (doclets_by_class inner) b)) fs"
    by (rule list.rel_mono_strong) (simp add: make_object_kind)
  ultimately show ?thesis using bucket by blast
qed

theorem kind_tag_names_sub_bucket_witness:
  "create_js_doclets demo_parse (demo_analyzer sample_table) = Inr sample_docs
   \<and> ''pyodide'' \<in> set bucket_keys
   \<and> (\<exists>as fs. map_of sample_docs ''pyodide'' = Some [(''attribute'', as), (''function'', fs)]
        \<and> list_all2 (\<lambda>j obj. make_object demo_parse (demo_analyzer sample_table) j = Inr obj
                          \<and> kind obj = ''attribute'')
             (filter (\<lambda>j. \<not> is_private j \<and> map_of j ''kind'' \<noteq> Some ''function'')
                (supplied (doclets_by_class (demo_analyzer sample_table)) ''pyodide'')) as
        \<and> list_all2 (\<lambda>j obj. make_object demo_parse (demo_analyzer sample_table) j = Inr obj
                          \<and> kind obj = ''function'')
             (filter (\<lambda>j. \<not> is_private j \<and> map_of j ''kind'' = Some ''function'')
                (supplied (doclets_by_class (demo_analyzer sample_table)) ''pyodide'')) fs)"
  by (rule conjI [OF sample_run conjI [OF bucket_keys_mem(2)
        kind_tag_names_sub_bucket [OF sample_run bucket_keys_mem(2)]]])

subsection \<open>Completion\<close>

lemma list_all2_left_mem:
  assumes "list_all2 P xs ys" and "x \<in> set xs"
  shows "\<exists>y\<in>set ys. P x y"
  using assms by (induction rule: list_all2_induct) auto

lemma create_js_doclets_supplied_made:
  assumes "create_js_doclets parse inner = Inr docs"
    and "b \<in> set bucket_keys"
    and "j \<in> set (supplied (doclets_by_class inner) b)"
    and "\<not> is_private j"
  shows "\<exists>obj. make_object parse inner j = Inr obj"
proof -
  from create_js_doclets_bucket [OF assms(1,2)] obtain as fs where
    as: "list_all2 (\<lambda>j obj. make_object parse inner j = Inr obj)
         (filter (\<lambda>j. \<not> is_private j \<and> map_of j ''kind'' \<noteq> Some ''function'')
            (supplied (doclets_by_class inner) b)) as"
    and fs: "list_all2 (\<lambda>j obj. make_object parse inner j = Inr obj)
         (filter (\<lambda>j. \<not> is_private j \<and> map_of j ''kind'' = Some ''function'')
            (supplied (doclets_by_class inner) b)) fs"
    by blast
  show ?thesis
  proof (cases "map_of j ''kind'' = Some ''function''")
    case True
    with assms(3,4) have "j \<in> set (filter (\<lambda>j. \<not> is_private j \<and> map_of j ''kind'' = Some ''function'')
            (supplied (doclets_by_class inner) b))" by simp
    from list_all2_left_mem [OF fs this] show ?thesis by blast
  next
    case False
    with assms(3,4) have "j \<in> set (filter (\<lambda>j. \<not> is_private j \<and> map_of j ''kind'' \<noteq> Some ''function'')
            (supplied (doclets_by_class inner) b))" by simp
    from list_all2_left_mem [OF as this] show ?thesis by blast
  qed
qed

text \<open>
  Claim C4, as the code has it. The categorizer completes exactly when every group key
  keeps at least one component once the components that contain a slash are removed, and
  the object of every doclet that is not private and is supplied to a bucket can be looked
  up and named. The doclets of a group that no bucket takes, or that a later group
  replaces, are never looked up, whatever their keys are; and when the categorizer
  completes an unmatched group is omitted: the result is the one for the table without the
  unmatched groups.
\<close>

theorem categorizer_completes:
  "(\<exists>docs. create_js_doclets parse inner = Inr docs
           \<and> create_js_doclets parse (without_unmatched inner) = Inr docs)
   = ((\<forall>kg\<in>set (doclets_by_class inner). strip_key (fst kg) \<noteq> [])
      \<and> (\<forall>b\<in>set bucket_keys. \<forall>j\<in>set (supplied (doclets_by_class inner) b).
            \<not> is_private j \<longrightarrow> (\<exists>obj. make_object parse inner j = Inr obj)))"
proof
  assume "\<exists>docs. create_js_doclets parse inner = Inr docs
           \<and> create_js_doclets parse (without_unmatched inner) = Inr docs"
  then obtain docs where d: "create_js_doclets parse inner = Inr docs" by blast
  from create_js_doclets_keys_nonempty [OF d]
  have "\<forall>kg\<in>set (doclets_by_class inner). strip_key (fst kg) \<noteq> []" .
  moreover have "\<forall>b\<in>set bucket_keys. \<forall>j\<in>set (supplied (doclets_by_class inner) b).
            \<not> is_private j \<longrightarrow> (\<exists>obj. make_object parse inner j = Inr obj)"
    by (intro ballI impI) (rule create_js_doclets_supplied_made [OF d])
  ultimately show "(\<forall>kg\<in>set (doclets_by_class inner). strip_key (fst kg) \<noteq> [])
      \<and> (\<forall>b\<in>set bucket_keys. \<forall>j\<in>set (supplied (doclets_by_class inner) b).
            \<not> is_private j \<longrightarrow> (\<exists>obj. make_object parse inner j = Inr obj))" ..
next
  assume r: "(\<forall>kg\<in>set (doclets_by_class inner). strip_key (fst kg) \<noteq> [])
      \<and> (\<forall>b\<in>set bucket_keys. \<forall>j\<in>set (supplied (doclets_by_class inner) b).
            \<not> is_private j \<longrightarrow> (\<exists>obj. make_object parse inner j = Inr obj))"
  from create_js_doclets_succeeds [OF conjunct1 [OF r] conjunct2 [OF r]] obtain docs where
    "create_js_doclets parse inner = Inr docs" by blast
  with create_js_doclets_without_unmatched [OF conjunct1 [OF r], of parse]
  show "\<exists>docs. create_js_doclets parse inner = Inr docs
           \<and> create_js_doclets parse (without_unmatched inner) = Inr docs" by simp
qed

theorem categorizer_completes_witness:
  "create_js_doclets demo_parse (demo_analyzer stray_table) = Inr sample_docs
   \<and> create_js_doclets demo_parse (without_unmatched (demo_analyzer stray_table))
       = Inr sample_docs
   \<and> make_object demo_parse (demo_analyzer stray_table) doclet_nameless = Inl KeyError
   \<and> \<not> is_private doclet_nameless
   \<and> ([''./'', ''other.'', ''Thing''], [doclet_nameless]) \<in> set stray_table
   \<and> \<not> matched ([''./'', ''other.'', ''Thing''], [doclet_nameless])
   \<and> ([''./'', ''old.'', ''globalThis''], [doclet_nameless]) \<in> set stray_table
   \<and> matched ([''./'', ''old.'', ''globalThis''], [doclet_nameless])"
proof -
  have k: "\<forall>kg\<in>set (doclets_by_class (demo_analyzer stray_table)). strip_key (fst kg) \<noteq> []"
    by (simp add: demo_analyzer_def stray_table_def strip_key_def)
  have g: "supplied (doclets_by_class (demo_analyzer stray_table)) ''globals''
             = [doclet_foo, doclet_hidden]"
    by (simp add: supplied_def last_group_def demo_analyzer_def stray_table_def strip_key_def
          sel_globals_def)
  have m: "supplied (doclets_by_class (demo_analyzer stray_table)) ''pyodide'' = [doclet_bar]"
    by (simp add: supplied_def last_group_def demo_analyzer_def stray_table_def strip_key_def
          sel_pyodide_def)
  have p: "supplied (doclets_by_class (demo_analyzer stray_table)) ''PyProxy'' = [doclet_baz]"
    by (simp add: supplied_def all_groups_def demo_analyzer_def stray_table_def strip_key_def
          sel_pyproxy_def)
  have mk: "\<exists>obj. make_object demo_parse (demo_analyzer stray_table) doclet_foo = Inr obj"
    "\<exists>obj. make_object demo_parse (demo_analyzer stray_table) doclet_bar = Inr obj"
    "\<exists>obj. make_object demo_parse (demo_analyzer stray_table) doclet_baz = Inr obj"
    "is_private doclet_hidden"
    by (simp_all add: demo_analyzer_def is_private_def make_object_def
          get_object_from_json_def longname_to_path_def demo_parse_def demo_lookup_def
          bracket_name_def dquote_def doclet_foo_def doclet_bar_def doclet_baz_def
          doclet_hidden_def)
  have o: "\<forall>b\<in>set bucket_keys.
             \<forall>j\<in>set (supplied (doclets_by_class (demo_analyzer stray_table)) b).
               \<not> is_private j \<longrightarrow>
               (\<exists>obj. make_object demo_parse (demo_analyzer stray_table) j = Inr obj)"
    using mk by (simp add: bucket_keys_def g m p)
  from iffD2 [OF categorizer_completes, OF conjI [OF k o]] obtain docs where
    d: "create_js_doclets demo_parse (demo_analyzer stray_table) = Inr docs"
    and u: "create_js_doclets demo_parse (without_unmatched (demo_analyzer stray_table))
              = Inr docs"
    by blast
  have e: "create_js_doclets demo_parse (demo_analyzer stray_table) = Inr sample_docs"
    by code_simp
  with d have "docs = sample_docs" by simp
  with u have u': "create_js_doclets demo_parse (without_unmatched (demo_analyzer stray_table))
                     = Inr sample_docs" by simp
  have n: "make_object demo_parse (demo_analyzer stray_table) doclet_nameless = Inl KeyError"
    "\<not> is_private doclet_nameless"
    by (simp_all add: make_object_def get_object_from_json_def doclet_nameless_def
          is_private_def)
  have t: "([''./'', ''other.'', ''Thing''], [doclet_nameless]) \<in> set stray_table"
    "([''./'', ''old.'', ''globalThis''], [doclet_nameless]) \<in> set stray_table"
    by (simp_all add: stray_table_def)
  have x: "\<not> matched ([''./'', ''other.'', ''Thing''], [doclet_nameless])"
    "matched ([''./'', ''old.'', ''globalThis''], [doclet_nameless])"
    by (simp_all add: matched_def strip_key_def sel_globals_def sel_pyodide_def sel_pyproxy_def)
  from e u' n t x show ?thesis by (intro conjI)
qed

theorem empty_stripped_key_counterexample:
  "create_js_doclets demo_parse (demo_analyzer [([''./''], [])]) = Inl IndexError
   \<and> create_js_doclets demo_parse
        (demo_analyzer [([''./'', ''pyodide.'', ''globalThis''],
                         [[(''longname'', []), (''kind'', ''function'')]])])
      = Inl LookupError"
  by code_simp

subsection \<open>Groups in more than one bucket\<close>

text \<open>
  Claim C5, as the code has it. A group whose stripped key meets the condition of the
  \<open>pyodide\<close> bucket meets neither the condition of \<open>globals\<close> nor that of
  \<open>PyProxy\<close>, and the first loop places it in the \<open>pyodide\<close> entry only.
\<close>

theorem pyodide_condition_exclusive:
  assumes "strip_key (fst kg) \<noteq> []"
    and "sel_pyodide (strip_key (fst kg))"
  shows "\<not> sel_globals (strip_key (fst kg)) \<and> \<not> sel_pyproxy (strip_key (fst kg))
       \<and> select_group its kg = Inr (AList.update ''pyodide'' (snd kg) its)"
proof -
  from assms(2) have n: "\<not> sel_globals (strip_key (fst kg))" "\<not> sel_pyproxy (strip_key (fst kg))"
    by (simp_all add: sel_pyodide_def sel_globals_def sel_pyproxy_def)
  with assms show ?thesis by (simp add: select_group_def Let_def)
qed

theorem pyodide_condition_exclusive_witness:
  "strip_key (fst ([''./'', ''pyodide.'', ''Module''], [doclet_bar])) \<noteq> []
   \<and> sel_pyodide (strip_key (fst ([''./'', ''pyodide.'', ''Module''], [doclet_bar])))
   \<and> \<not> sel_globals (strip_key (fst ([''./'', ''pyodide.'', ''Module''], [doclet_bar])))
   \<and> \<not> sel_pyproxy (strip_key (fst ([''./'', ''pyodide.'', ''Module''], [doclet_bar])))
   \<and> select_group [(''PyProxy'', [])] ([''./'', ''pyodide.'', ''Module''], [doclet_bar])
       = Inr [(''PyProxy'', []), (''pyodide'', [doclet_bar])]"
proof -
  have h: "strip_key (fst ([''./'', ''pyodide.'', ''Module''], [doclet_bar])) \<noteq> []"
    "sel_pyodide (strip_key (fst ([''./'', ''pyodide.'', ''Module''], [doclet_bar])))"
    by (simp_all add: sel_pyodide_def strip_key_def)
  from pyodide_condition_exclusive [OF h, of "[(''PyProxy'', [])]"] h
  show ?thesis by (intro conjI) simp_all
qed

theorem globalThis_in_pyproxy_counterexample:
  "sel_globals (strip_key [''./'', ''pyproxy.'', ''globalThis''])
   \<and> sel_pyproxy (strip_key [''./'', ''pyproxy.'', ''globalThis''])
   \<and> select_items [(''PyProxy'', [])] [([''./'', ''pyproxy.'', ''globalThis''], [doclet_foo])]
       = Inr [(''PyProxy'', [doclet_foo]), (''globals'', [doclet_foo])]"
  by code_simp

subsection \<open>Quoted names\<close>

lemma make_object_display_name:
  assumes "make_object parse inner j = Inr obj"
  shows "\<exists>found. get_object_from_json parse inner j = Inr found
           \<and> obj = found\<lparr>name := display_name (name found)\<rparr>"
proof -
  from assms obtain found nm where
    f: "get_object_from_json parse inner j = Inr found"
    and n: "bracket_name (name found) = Inr nm"
    and o: "obj = found\<lparr>name := nm\<rparr>"
    by (auto simp add: make_object_def split: sum.splits)
  from bracket_name_cases [OF n] have "nm = display_name (name found)"
    by (simp add: display_name_def)
  with f o show ?thesis by blast
qed

text \<open>
  Claim C6. Every object stored in a sub-bucket is the object looked up for its doclet with
  the name replaced by its display name: the inner text in square brackets when the name
  starts and ends with a double quote, the name itself otherwise.
\<close>

theorem quoted_names_in_brackets:
  assumes "create_js_doclets parse inner = Inr docs"
    and "b \<in> set bucket_keys"
  shows "\<exists>as fs. map_of docs b = Some [(''attribute'', as), (''function'', fs)]
    \<and> list_all2 (\<lambda>j obj. \<exists>found. get_object_from_json parse inner j = Inr found
                              \<and> obj = found\<lparr>name := display_name (name found)\<rparr>)
         (filter (\<lambda>j. \<not> is_private j \<and> map_of j ''kind'' \<noteq> Some ''function'')
            (supplied (doclets_by_class inner) b)) as
    \<and> list_all2 (\<lambda>j obj. \<exists>found. get_object_from_json parse inner j = Inr found
                              \<and> obj = found\<lparr>name := display_name (name found)\<rparr>)
         (filter (\<lambda>j. \<not> is_private j \<and> map_of j ''kind'' = Some ''function'')
            (supplied (doclets_by_class inner) b)) fs"
proof -
  from create_js_doclets_bucket [OF assms] obtain as fs where
    bucket: "map_of docs b = Some [(''attribute'', as), (''function'', fs)]"
    and as: "list_all2 (\<lambda>j obj. make_object parse inner j = Inr obj)
         (filter (\<lambda>j. \<not> is_private j \<and> map_of j ''kind'' \<noteq> Some ''function'')
            (supplied (doclets_by_class inner) b)) as"
    and fs: "list_all2 (\<lambda>j obj. make_object parse inner j = Inr obj)
         (filter (\<lambda>j. \<not> is_private j \<and> map_of j ''kind'' = Some ''function'')
            (supplied (doclets_by_class inner) b)) fs"
    by blast
  from as have "list_all2 (\<lambda>j obj. \<exists>found. get_object_from_json parse inner j = Inr found
                              \<and> obj = found\<lparr>name := display_name (name found)\<rparr>)
         (filter (\<lambda>j. \<not> is_private j \<and> map_of j ''kind'' \<noteq> Some ''function'')
            (supplied (doclets_by_class inner) b)) as"
    by (rule list_all2_mono) (rule make_object_display_name)
  moreover from fs have "list_all2 (\<lambda>j obj. \<exists>found. get_object_from_json parse inner j = Inr found
                              \<and> obj = found\<lparr>name := display_name (name found)\<rparr>)
         (filter (\<lambda>j. \<not> is_private j \<and> map_of j ''kind'' = Some ''function'')
            (supplied (doclets_by_class inner) b)) fs"
    by (rule list_all2_mono) (rule make_object_display_name)
  ultimately show ?thesis using bucket by blast
qed

theorem quoted_names_in_brackets_witness:
  "create_js_doclets demo_parse (demo_analyzer sample_table) = Inr sample_docs
   \<and> ''pyodide'' \<in> set bucket_keys
   \<and> display_name ([dquote] @ ''bar'' @ [dquote]) = ''[bar]''
   \<and> display_name ''baz'' = ''baz''
   \<and> (\<exists>as fs. map_of sample_docs ''pyodide'' = Some [(''attribute'', as), (''function'', fs)]
    \<and> list_all2 (\<lambda>j obj. \<exists>found. get_object_from_json demo_parse (demo_analyzer sample_table) j
                                    = Inr found
                              \<and> obj = found\<lparr>name := display_name (name found)\<rparr>)
         (filter (\<lambda>j. \<not> is_private j \<and> map_of j ''kind'' \<noteq> Some ''function'')
            (supplied (doclets_by_class (demo_analyzer sample_table)) ''pyodide'')) as
    \<and> list_all2 (\<lambda>j obj. \<exists>found. get_object_from_json demo_parse (demo_analyzer sample_table) j
                                    = Inr found
                              \<and> obj = found\<lparr>name := display_name (name found)\<rparr>)
         (filter (\<lambda>j. \<not> is_private j \<and> map_of j ''kind'' = Some ''function'')
            (supplied (doclets_by_class (demo_analyzer sample_table)) ''pyodide'')) fs)"
proof -
  have d: "display_name ([dquote] @ ''bar'' @ [dquote]) = ''[bar]''"
    "display_name ''baz'' = ''baz''"
    by (simp_all add: display_name_def dquote_def)
  from quoted_names_in_brackets [OF sample_run bucket_keys_mem(2)] sample_run
    bucket_keys_mem(2) d
  show ?thesis by (intro conjI)
qed

subsection \<open>Order, and the full-content directive\<close>

lemma join_Cons:
  "join sep (x # xs) = x @ concat (map (\<lambda>y. sep @ y) xs)"
  by (induction xs arbitrary: x) simp_all

lemma join_map:
  "join sep (map g xs)
     = (case xs of [] \<Rightarrow> [] | x # rest \<Rightarrow> g x @ concat (map (\<lambda>y. sep @ g y) rest))"
  by (cases xs) (simp_all add: join_Cons comp_def)

text \<open>
  Claim C7. In every bucket each sub-bucket holds the objects of its retained doclets in
  the order in which the doclets were supplied, and the full-content directive renders
  the module line, then one block per object of the \<open>attribute\<close> sub-bucket in that
  order, then one block per object of the \<open>function\<close> sub-bucket in that order; a
  block is the text of the function renderer for a function and of the attribute renderer
  otherwise, and the module line, the blocks and the two sub-buckets are separated by two
  line feeds.
\<close>

theorem order_kept_and_rendered:
  assumes "create_js_doclets parse inner = Inr docs"
    and "b \<in> set bucket_keys"
  shows "\<exists>as fs. map_of docs b = Some [(''attribute'', as), (''function'', fs)]
    \<and> list_all2 (\<lambda>j obj. make_object parse inner j = Inr obj)
         (filter (\<lambda>j. \<not> is_private j \<and> map_of j ''kind'' \<noteq> Some ''function'')
            (supplied (doclets_by_class inner) b)) as
    \<and> list_all2 (\<lambda>j obj. make_object parse inner j = Inr obj)
         (filter (\<lambda>j. \<not> is_private j \<and> map_of j ''kind'' = Some ''function'')
            (supplied (doclets_by_class inner) b)) fs
    \<and> content_rst R docs [b]
         = Inr [[''.. js:module:: '' @ b], map (get_rst R) as, map (get_rst R) fs]
    \<and> run_content R parse_rst docs [b]
         = Inr (parse_rst
             (''.. js:module:: '' @ b
              @ [CHR 0x0A, CHR 0x0A]
              @ (case as of
                   [] \<Rightarrow> []
                 | x # rest \<Rightarrow>
                     (if is_function x then function_rst R [name x] x
                      else attribute_rst R [name x] x)
                     @ concat (map (\<lambda>obj. [CHR 0x0A, CHR 0x0A]
                                  @ (if is_function obj then function_rst R [name obj] obj
                                     else attribute_rst R [name obj] obj)) rest))
              @ [CHR 0x0A, CHR 0x0A]
              @ (case fs of
                   [] \<Rightarrow> []
                 | x # rest \<Rightarrow>
                     (if is_function x then function_rst R [name x] x
                      else attribute_rst R [name x] x)
                     @ concat (map (\<lambda>obj. [CHR 0x0A, CHR 0x0A]
                                  @ (if is_function obj then function_rst R [name obj] obj
                                     else attribute_rst R [name obj] obj)) rest))))"
proof -
  from create_js_doclets_bucket [OF assms] obtain as fs where
    bucket: "map_of docs b = Some [(''attribute'', as), (''function'', fs)]"
    and as: "list_all2 (\<lambda>j obj. make_object parse inner j = Inr obj)
         (filter (\<lambda>j. \<not> is_private j \<and> map_of j ''kind'' \<noteq> Some ''function'')
            (supplied (doclets_by_class inner) b)) as"
    and fs: "list_all2 (\<lambda>j obj. make_object parse inner j = Inr obj)
         (filter (\<lambda>j. \<not> is_private j \<and> map_of j ''kind'' = Some ''function'')
            (supplied (doclets_by_class inner) b)) fs"
    by blast
  note c = content_rst_bucket [OF bucket, of R]
  have g: "get_rst R = (\<lambda>obj. if is_function obj then function_rst R [name obj] obj
                              else attribute_rst R [name obj] obj)"
    by (rule ext) (simp add: get_rst_def)
  from c have "run_content R parse_rst docs [b]
         = Inr (parse_rst (''.. js:module:: '' @ b @ nl2
                           @ join nl2 (map (get_rst R) as) @ nl2
                           @ join nl2 (map (get_rst R) fs)))"
    by (simp add: run_content_def)
  then have "run_content R parse_rst docs [b]
         = Inr (parse_rst
             (''.. js:module:: '' @ b
              @ [CHR 0x0A, CHR 0x0A]
              @ (case as of
                   [] \<Rightarrow> []
                 | x # rest \<Rightarrow>
                     (if is_function x then function_rst R [name x] x
                      else attribute_rst R [name x] x)
                     @ concat (map (\<lambda>obj. [CHR 0x0A, CHR 0x0A]
                                  @ (if is_function obj then function_rst R [name obj] obj
                                     else attribute_rst R [name obj] obj)) rest))
              @ [CHR 0x0A, CHR 0x0A]
              @ (case fs of
                   [] \<Rightarrow> []
                 | x # rest \<Rightarrow>
                     (if is_function x then function_rst R [name x] x
                      else attribute_rst R [name x] x)
                     @ concat (map (\<lambda>obj. [CHR 0x0A, CHR 0x0A]
                                  @ (if is_function obj then function_rst R [name obj] obj
                                     else attribute_rst R [name obj] obj)) rest))))"
    unfolding join_map g nl2_def by simp
  with bucket as fs c show ?thesis by blast
qed

theorem order_kept_and_rendered_witness:
  "create_js_doclets demo_parse (demo_analyzer order_table) = Inr order_docs
   \<and> ''PyProxy'' \<in> set bucket_keys
   \<and> supplied (doclets_by_class (demo_analyzer order_table)) ''PyProxy''
       = [doclet_foo, doclet_bar, doclet_hidden, doclet_baz, doclet_qux, doclet_len]
   \<and> map_of order_docs ''PyProxy''
       = Some [(''attribute'', [obj_bar, obj_qux, obj_len]), (''function'', [obj_foo, obj_baz])]
   \<and> list_all2 (\<lambda>j obj. make_object demo_parse (demo_analyzer order_table) j = Inr obj)
        [doclet_bar, doclet_qux, doclet_len] [obj_bar, obj_qux, obj_len]
   \<and> list_all2 (\<lambda>j obj. make_object demo_parse (demo_analyzer order_table) j = Inr obj)
        [doclet_foo, doclet_baz] [obj_foo, obj_baz]
   \<and> run_content demo_renderers (\<lambda>s. s) order_docs [''PyProxy'']
       = Inr (''.. js:module:: PyProxy'' @ [CHR 0x0A, CHR 0x0A]
              @ ''.. js:attribute:: [bar]'' @ [CHR 0x0A, CHR 0x0A]
              @ ''.. js:attribute:: qux'' @ [CHR 0x0A, CHR 0x0A]
              @ ''.. js:attribute:: len'' @ [CHR 0x0A, CHR 0x0A]
              @ ''.. js:function:: foo'' @ [CHR 0x0A, CHR 0x0A]
              @ ''.. js:function:: baz'')"
proof -
  have run: "create_js_doclets demo_parse (demo_analyzer order_table) = Inr order_docs"
    by code_simp
  have s: "supplied (doclets_by_class (demo_analyzer order_table)) ''PyProxy''
       = [doclet_foo, doclet_bar, doclet_hidden, doclet_baz, doclet_qux, doclet_len]"
    by (simp add: supplied_def all_groups_def demo_analyzer_def order_table_def strip_key_def
          sel_pyproxy_def)
  have fa: "filter (\<lambda>j. \<not> is_private j \<and> map_of j ''kind'' \<noteq> Some ''function'')
              [doclet_foo, doclet_bar, doclet_hidden, doclet_baz, doclet_qux, doclet_len]
            = [doclet_bar, doclet_qux, doclet_len]"
    by (simp add: is_private_def doclet_foo_def doclet_bar_def doclet_hidden_def
          doclet_baz_def doclet_qux_def doclet_len_def)
  have ff: "filter (\<lambda>j. \<not> is_private j \<and> map_of j ''kind'' = Some ''function'')
              [doclet_foo, doclet_bar, doclet_hidden, doclet_baz, doclet_qux, doclet_len]
            = [doclet_foo, doclet_baz]"
    by (simp add: is_private_def doclet_foo_def doclet_bar_def doclet_hidden_def
          doclet_baz_def doclet_qux_def doclet_len_def)
  have look: "map_of order_docs ''PyProxy''
       = Some [(''attribute'', [obj_bar, obj_qux, obj_len]), (''function'', [obj_foo, obj_baz])]"
    by (simp add: order_docs_def)
  from order_kept_and_rendered [OF run bucket_keys_mem(3), of demo_renderers "\<lambda>s. s"]
  obtain as fs where
    b: "map_of order_docs ''PyProxy'' = Some [(''attribute'', as), (''function'', fs)]"
    and la: "list_all2 (\<lambda>j obj. make_object demo_parse (demo_analyzer order_table) j = Inr obj)
         (filter (\<lambda>j. \<not> is_private j \<and> map_of j ''kind'' \<noteq> Some ''function'')
            (supplied (doclets_by_class (demo_analyzer order_table)) ''PyProxy'')) as"
    and lf: "list_all2 (\<lambda>j obj. make_object demo_parse (demo_analyzer order_table) j = Inr obj)
         (filter (\<lambda>j. \<not> is_private j \<and> map_of j ''kind'' = Some ''function'')
            (supplied (doclets_by_class (demo_analyzer order_table)) ''PyProxy'')) fs"
    and r: "run_content demo_renderers (\<lambda>s. s) order_docs [''PyProxy'']
         = Inr (''.. js:module:: '' @ ''PyProxy''
              @ [CHR 0x0A, CHR 0x0A]
              @ (case as of
                   [] \<Rightarrow> []
                 | x # rest \<Rightarrow>
                     (if is_function x then function_rst demo_renderers [name x] x
                      else attribute_rst demo_renderers [name x] x)
                     @ concat (map (\<lambda>obj. [CHR 0x0A, CHR 0x0A]
                                  @ (if is_function obj
                                     then function_rst demo_renderers [name obj] obj
                                     else attribute_rst demo_renderers [name obj] obj)) rest))
              @ [CHR 0x0A, CHR 0x0A]
              @ (case fs of
                   [] \<Rightarrow> []
                 | x # rest \<Rightarrow>
                     (if is_function x then function_rst demo_renderers [name x] x
                      else attribute_rst demo_renderers [name x] x)
                     @ concat (map (\<lambda>obj. [CHR 0x0A, CHR 0x0A]
                                  @ (if is_function obj
                                     then function_rst demo_renderers [name obj] obj
                                     else attribute_rst demo_renderers [name obj] obj)) rest)))"
    by blast
  from b look have as: "as = [obj_bar, obj_qux, obj_len]" and fs: "fs = [obj_foo, obj_baz]"
    by simp_all
  from la have la': "list_all2 (\<lambda>j obj. make_object demo_parse (demo_analyzer order_table) j = Inr obj)
        [doclet_bar, doclet_qux, doclet_len] [obj_bar, obj_qux, obj_len]"
    unfolding s fa as .
  from lf have lf': "list_all2 (\<lambda>j obj. make_object demo_parse (demo_analyzer order_table) j = Inr obj)
        [doclet_foo, doclet_baz] [obj_foo, obj_baz]"
    unfolding s ff fs .
  from r have r': "run_content demo_renderers (\<lambda>s. s) order_docs [''PyProxy'']
       = Inr (''.. js:module:: PyProxy'' @ [CHR 0x0A, CHR 0x0A]
              @ ''.. js:attribute:: [bar]'' @ [CHR 0x0A, CHR 0x0A]
              @ ''.. js:attribute:: qux'' @ [CHR 0x0A, CHR 0x0A]
              @ ''.. js:attribute:: len'' @ [CHR 0x0A, CHR 0x0A]
              @ ''.. js:function:: foo'' @ [CHR 0x0A, CHR 0x0A]
              @ ''.. js:function:: baz'')"
    unfolding as fs
    by (simp add: demo_renderers_def obj_foo_def obj_bar_def obj_baz_def obj_qux_def
          obj_len_def)
  from run bucket_keys_mem(3) s look la' lf' r' show ?thesis by (intro conjI)
qed

subsection \<open>The summary directive\<close>

text \<open>
  Claim C8. For each of the three bucket names the summary directive emits, for the
  \<open>attribute\<close> sub-bucket and then for the \<open>function\<close> sub-bucket, nothing when
  the sub-bucket is empty and otherwise one heading followed by the column specification
  and one table, whose rows are as many as the retained doclets of that sub-bucket.
\<close>

theorem summary_sections:
  assumes "create_js_doclets parse inner = Inr docs"
    and "b \<in> set bucket_keys"
  shows "\<exists>as fs. map_of docs b = Some [(''attribute'', as), (''function'', fs)]
    \<and> length as = length (filter (\<lambda>j. \<not> is_private j \<and> map_of j ''kind'' \<noteq> Some ''function'')
                            (supplied (doclets_by_class inner) b))
    \<and> length fs = length (filter (\<lambda>j. \<not> is_private j \<and> map_of j ''kind'' = Some ''function'')
                            (supplied (doclets_by_class inner) b))
    \<and> length (map (table_row E) (get_summary_table E b as)) = length as
    \<and> length (map (table_row E) (get_summary_table E b fs)) = length fs
    \<and> run_summary E docs [b]
         = Inr ((if as = [] then []
                 else [Heading ''Attributes:'', Tabular_col_spec table_spec,
                       Autosummary_table (map (table_row E) (get_summary_table E b as))])
                @ (if fs = [] then []
                   else [Heading ''Functions:'', Tabular_col_spec table_spec,
                         Autosummary_table (map (table_row E) (get_summary_table E b fs))]))"
proof -
  from create_js_doclets_bucket [OF assms] obtain as fs where
    bucket: "map_of docs b = Some [(''attribute'', as), (''function'', fs)]"
    and as: "list_all2 (\<lambda>j obj. make_object parse inner j = Inr obj)
         (filter (\<lambda>j. \<not> is_private j \<and> map_of j ''kind'' \<noteq> Some ''function'')
            (supplied (doclets_by_class inner) b)) as"
    and fs: "list_all2 (\<lambda>j obj. make_object parse inner j = Inr obj)
         (filter (\<lambda>j. \<not> is_private j \<and> map_of j ''kind'' = Some ''function'')
            (supplied (doclets_by_class inner) b)) fs"
    by blast
  from as have "length as = length (filter (\<lambda>j. \<not> is_private j \<and> map_of j ''kind'' \<noteq> Some ''function'')
                            (supplied (doclets_by_class inner) b))"
    by (simp add: list_all2_lengthD)
  moreover from fs have "length fs = length (filter (\<lambda>j. \<not> is_private j \<and> map_of j ''kind'' = Some ''function'')
                            (supplied (doclets_by_class inner) b))"
    by (simp add: list_all2_lengthD)
  moreover have "length (map (table_row E) (get_summary_table E b as)) = length as"
    "length (map (table_row E) (get_summary_table E b fs)) = length fs"
    by (simp_all add: get_summary_table_def)
  moreover note run_summary_bucket [OF bucket, of E] bucket
  ultimately show ?thesis by blast
qed

theorem summary_sections_witness:
  "create_js_doclets demo_parse (demo_analyzer sample_table) = Inr sample_docs
   \<and> ''globals'' \<in> set bucket_keys
   \<and> run_summary demo_env sample_docs [''globals'']
       = Inr [Heading ''Functions:'', Tabular_col_spec table_spec,
              Autosummary_table [table_row demo_env (get_summary_row demo_env ''globals'' obj_foo)]]"
proof -
  from summary_sections [OF sample_run bucket_keys_mem(1), of demo_env]
  obtain as fs where
    "map_of sample_docs ''globals'' = Some [(''attribute'', as), (''function'', fs)]"
    and r: "run_summary demo_env sample_docs [''globals'']
         = Inr ((if as = [] then []
                 else [Heading ''Attributes:'', Tabular_col_spec table_spec,
                       Autosummary_table (map (table_row demo_env) (get_summary_table demo_env ''globals'' as))])
                @ (if fs = [] then []
                   else [Heading ''Functions:'', Tabular_col_spec table_spec,
                         Autosummary_table (map (table_row demo_env) (get_summary_table demo_env ''globals'' fs))]))"
    by blast
  then have "as = []" "fs = [obj_foo]" by (simp_all add: sample_docs_def)
  with r have "run_summary demo_env sample_docs [''globals'']
       = Inr [Heading ''Functions:'', Tabular_col_spec table_spec,
              Autosummary_table [table_row demo_env (get_summary_row demo_env ''globals'' obj_foo)]]"
    by (simp add: get_summary_table_def)
  with sample_run bucket_keys_mem(1) show ?thesis by (intro conjI)
qed

subsection \<open>The colon in summaries\<close>

text \<open>
  Claim C9, as the code has it. The text handed to the library is the description with
  every colon replaced by the escape token; replacing the token back undoes that on every
  description; and whenever the library returns the escaped form of a text, the summary is
  that text itself, with its colons restored.
\<close>

theorem summary_restores_colons:
  assumes "lib_extract_summary E [str_replace '':'' colon_esc descr]
             = str_replace '':'' colon_esc kept"
  shows "str_replace '':'' colon_esc descr
           = concat (map (\<lambda>c. if c = CHR '':'' then colon_esc else [c]) descr)
       \<and> str_replace colon_esc '':'' (str_replace '':'' colon_esc descr) = descr
       \<and> extract_summary E descr = kept"
proof (intro conjI)
  show "str_replace '':'' colon_esc descr
          = concat (map (\<lambda>c. if c = CHR '':'' then colon_esc else [c]) descr)"
    by (rule str_replace_char)
  show "str_replace colon_esc '':'' (str_replace '':'' colon_esc descr) = descr"
    by (rule unescape_escape_colon)
  have "extract_summary E descr
          = str_replace colon_esc '':'' (str_replace '':'' colon_esc kept)"
    by (simp only: extract_summary_def assms)
  also have "\<dots> = kept" by (rule unescape_escape_colon)
  finally show "extract_summary E descr = kept" .
qed

theorem summary_restores_colons_witness:
  "lib_extract_summary demo_env [str_replace '':'' colon_esc ''See: foo'']
     = str_replace '':'' colon_esc ''See: foo''
   \<and> extract_summary demo_env ''See: foo'' = ''See: foo''"
proof -
  have h: "lib_extract_summary demo_env [str_replace '':'' colon_esc ''See: foo'']
     = str_replace '':'' colon_esc ''See: foo''"
    by (simp add: demo_env_def echo_summary_def)
  from summary_restores_colons [OF h] h show ?thesis by (intro conjI) simp_all
qed

theorem token_in_summary_counterexample:
  "extract_summary demo_env colon_esc = colon_esc
   \<and> contains colon_esc (extract_summary demo_env colon_esc)"
  by code_simp

subsection \<open>Unknown bucket names\<close>

text \<open>
  Claim C10. After the categorizer has completed, both directives raise \<open>KeyError\<close>
  for an argument that is not one of the three bucket names.
\<close>

theorem unknown_bucket_KeyError:
  assumes "create_js_doclets parse inner = Inr docs"
    and "module \<notin> set bucket_keys"
  shows "content_rst R docs [module] = Inl KeyError
       \<and> run_content R parse_rst docs [module] = Inl KeyError
       \<and> run_summary E docs [module] = Inl KeyError"
proof -
  from create_js_doclets_no_bucket [OF assms] have "map_of docs module = None" .
  then show ?thesis by (simp add: content_rst_def run_content_def run_summary_def)
qed

theorem unknown_bucket_KeyError_witness:
  "create_js_doclets demo_parse (demo_analyzer sample_table) = Inr sample_docs
   \<and> ''Globals'' \<notin> set bucket_keys
   \<and> content_rst demo_renderers sample_docs [''Globals''] = Inl KeyError
   \<and> run_content demo_renderers (\<lambda>s. s) sample_docs [''Globals''] = Inl KeyError
   \<and> run_summary demo_env sample_docs [''Globals''] = Inl KeyError"
proof -
  have n: "''Globals'' \<notin> set bucket_keys" by (simp add: bucket_keys_def)
  from unknown_bucket_KeyError [OF sample_run n, of demo_renderers "\<lambda>s. s" demo_env]
    sample_run n
  show ?thesis by (intro conjI) simp_all
qed

end
